theory Spec2Isabelle
  imports Complex_Main "HOL-Library.Word"
begin

section \<open>Reply splitting (discord\_client.py, \_chunk\_text)\<close>

text \<open>
  Python exceptions that the modelled functions can raise.
\<close>

datatype py_error = ValueError | ClientException | OtherException

text \<open>
  \<^verbatim>\<open>range(start, stop, step)\<close> for a positive step, as the list of its values. The
  caller deals with a step that is zero (a ValueError) or negative.
\<close>

function py_range :: "nat \<Rightarrow> nat \<Rightarrow> nat \<Rightarrow> nat list" where
  "py_range i stop step =
     (if 0 < step \<and> i < stop then i # py_range (i + step) stop step else [])"
  by pat_completeness auto
termination
  by (relation "measure (\<lambda>(i, stop, step). stop - i)") auto

declare py_range.simps [simp del]

text \<open>
  \<^verbatim>\<open>text[i:j]\<close> for \<open>0 \<le> i \<le> j\<close>: Python clips the slice at the end of the text.
\<close>

definition py_slice :: "'a list \<Rightarrow> nat \<Rightarrow> nat \<Rightarrow> 'a list" where
  "py_slice text i j = take (j - i) (drop i text)"

text \<open>
  \<^verbatim>\<open>
  def _chunk_text(text, chunk_size=1950):
      for i in range(0, len(text), chunk_size):
          yield text[i:i + chunk_size]
  \<close>
  The generator is modelled by the list of the chunks it yields. A text is a list of code
  points; only its length and its slices matter here, so the element type is left open.
  \<^verbatim>\<open>range\<close> raises ValueError for a step of zero and is empty for a negative step.
\<close>

definition chunk_text :: "'a list \<Rightarrow> int \<Rightarrow> py_error + 'a list list" where
  "chunk_text text chunk_size =
     (if chunk_size = 0 then Inl ValueError
      else if chunk_size < 0 then Inr []
      else Inr (map (\<lambda>i. py_slice text i (i + nat chunk_size))
                    (py_range 0 (length text) (nat chunk_size))))"

text \<open>The chunk size that \<^verbatim>\<open>on_message\<close> passes.\<close>

definition reply_chunk_size :: int where
  "reply_chunk_size = 1950"

section \<open>Strings (Python \<^verbatim>\<open>str\<close> operations used by the pipeline)\<close>

text \<open>
  A text is a \<open>string\<close>; its characters are the code points below 256. \<^verbatim>\<open>str.strip()\<close>
  removes leading and trailing whitespace, which in that range is the set below.
\<close>

definition is_space :: "char \<Rightarrow> bool" where
  "is_space c = ((of_char c :: nat) \<in> {9, 10, 11, 12, 13, 28, 29, 30, 31, 32, 133, 160})"

definition py_strip :: "string \<Rightarrow> string" where
  "py_strip s = rev (dropWhile is_space (rev (dropWhile is_space s)))"

text \<open>\<^verbatim>\<open>s.replace(c, "")\<close> for a single character \<open>c\<close>.\<close>

definition remove_char :: "char \<Rightarrow> string \<Rightarrow> string" where
  "remove_char c s = filter (\<lambda>x. x \<noteq> c) s"

text \<open>\<^verbatim>\<open>s.startswith("[")\<close>\<close>

fun starts_with_bracket :: "string \<Rightarrow> bool" where
  "starts_with_bracket [] = False"
| "starts_with_bracket (c # cs) = (c = CHR ''['')"

section \<open>The audio sink (voice\_handler.py, class AudioSink)\<close>

type_synonym byte = "8 word"

text \<open>
  The key of a speaker in \<^verbatim>\<open>audio_data\<close>: the member's id, or \<^verbatim>\<open>None\<close> when the
  receiver passes no member.
\<close>

type_synonym user_key = "int option"

text \<open>
  \<^verbatim>\<open>audio_data\<close> is a dict from speaker to a \<^verbatim>\<open>BytesIO\<close>; a dict keeps its keys in
  insertion order, and the code takes the first one, so it is an association list.
\<close>

record AudioSink =
  audio_data :: "(user_key \<times> byte list) list"
  last_packet_time :: rat

text \<open>
  \<^verbatim>\<open>
  if user_id not in self.audio_data:
      self.audio_data[user_id] = io.BytesIO()
  self.audio_data[user_id].write(data.pcm)
  \<close>
\<close>

fun buffer_write :: "user_key \<Rightarrow> byte list \<Rightarrow> (user_key \<times> byte list) list
    \<Rightarrow> (user_key \<times> byte list) list" where
  "buffer_write u pcm [] = [(u, pcm)]"
| "buffer_write u pcm ((v, b) # rest) =
     (if v = u then (v, b @ pcm) # rest else (v, b) # buffer_write u pcm rest)"

text \<open>\<^verbatim>\<open>AudioSink.write(user, data)\<close> at the time \<open>now\<close>.\<close>

definition sink_write :: "user_key \<Rightarrow> byte list \<Rightarrow> rat \<Rightarrow> AudioSink \<Rightarrow> AudioSink" where
  "sink_write u pcm now s =
     s\<lparr>audio_data := buffer_write u pcm (audio_data s), last_packet_time := now\<rparr>"

text \<open>\<^verbatim>\<open>AudioSink.cleanup()\<close>: closes every buffer and clears the dict.\<close>

definition sink_cleanup :: "AudioSink \<Rightarrow> AudioSink" where
  "sink_cleanup s = s\<lparr>audio_data := []\<rparr>"

text \<open>
  \<^verbatim>\<open>np.frombuffer(audio_bytes, dtype=np.int16)\<close>: pairs of bytes, low byte first, as
  signed 16-bit samples. A buffer of odd length raises ValueError, which
  \<^verbatim>\<open>get_audio_data\<close> catches: the result is then \<^verbatim>\<open>None\<close>.
\<close>

fun frombuffer_int16 :: "byte list \<Rightarrow> 16 word list option" where
  "frombuffer_int16 [] = Some []"
| "frombuffer_int16 [b] = None"
| "frombuffer_int16 (lo # hi # rest) =
     (case frombuffer_int16 rest of
        None \<Rightarrow> None
      | Some ws \<Rightarrow> Some ((word_of_int (uint lo + 256 * uint hi) :: 16 word) # ws))"

text \<open>\<^verbatim>\<open>.astype(np.float32) / 32768.0\<close>: exact on 16-bit samples.\<close>

definition normalize_sample :: "16 word \<Rightarrow> rat" where
  "normalize_sample x = of_int (sint x) / 32768"

text \<open>Truth value of a speaker key: \<^verbatim>\<open>None\<close> and \<^verbatim>\<open>0\<close> are false.\<close>

fun truthy_key :: "user_key \<Rightarrow> bool" where
  "truthy_key None = False"
| "truthy_key (Some i) = (i \<noteq> 0)"

text \<open>
  \<^verbatim>\<open>
  def get_audio_data(self, user_id=None):
      if user_id and user_id in self.audio_data:
          audio_bytes = self.audio_data[user_id].getvalue()
      else:
          if not self.audio_data:
              return None
          audio_bytes = list(self.audio_data.values())[0].getvalue()
      if not audio_bytes:
          return None
      audio_array = np.frombuffer(audio_bytes, dtype=np.int16).astype(np.float32) / 32768.0
      return audio_array
  \<close>
\<close>

definition selected_bytes :: "user_key \<Rightarrow> AudioSink \<Rightarrow> byte list option" where
  "selected_bytes u s =
     (case (if truthy_key u then map_of (audio_data s) u else None) of
        Some b \<Rightarrow> Some b
      | None \<Rightarrow> (case audio_data s of [] \<Rightarrow> None | (v, b) # rest \<Rightarrow> Some b))"

definition get_audio_data :: "user_key \<Rightarrow> AudioSink \<Rightarrow> rat list option" where
  "get_audio_data u s =
     (case selected_bytes u s of
        None \<Rightarrow> None
      | Some audio_bytes \<Rightarrow>
          if audio_bytes = [] then None
          else (case frombuffer_int16 audio_bytes of
                  None \<Rightarrow> None
                | Some ws \<Rightarrow> Some (map normalize_sample ws)))"

section \<open>The world of one voice session\<close>

text \<open>
  What the session task does, in the order it does it. \<open>TurnExtracted\<close> and \<open>TurnDone\<close>
  mark the entry and the exit of a turn's pipeline run (the code after
  \<^verbatim>\<open>record_audio_from_channel\<close> returned a turn, up to the end of the loop body).
  \<open>Transcribe\<close> carries the waveform given to the recognizer.
\<close>

datatype event =
    Listen
  | SinkReset
  | TurnExtracted
  | Transcribe "rat list"
  | LogSend string
  | LLMPost nat
  | Sleep rat
  | Synthesize string
  | CreateSource string
  | Play string
  | Remove string
  | LoopError
  | TurnDone
  | StopListening

text \<open>
  The session runs on a cooperative scheduler; the task gives control away only at an
  \<^verbatim>\<open>await\<close>. The world holds what the task reads and writes: the clock that
  \<^verbatim>\<open>time.time()\<close> reads (seconds), the sink, the packets still to arrive (with their
  arrival times, in order of arrival), the audio player of the voice client (the file it
  plays and the time at which it finishes), the existing temporary files, the deletions
  made so far, and the task's events. Time passes only while the task is suspended: a
  statement takes no time, \<^verbatim>\<open>asyncio.sleep(d)\<close> takes exactly \<open>d\<close>.
\<close>

record world =
  clock :: rat
  sink :: AudioSink
  pending :: "(rat \<times> user_key \<times> byte list) list"
  player :: "(string \<times> rat) option"
  files :: "string set"
  unlinked :: "string list"
  trace :: "event list"

definition emit :: "event \<Rightarrow> world \<Rightarrow> world" where
  "emit e w = w\<lparr>trace := trace w @ [e]\<rparr>"

text \<open>The receiver thread calls \<^verbatim>\<open>sink.write\<close> for every packet that has arrived.\<close>

fun deliver_packets :: "rat \<Rightarrow> (rat \<times> user_key \<times> byte list) list \<Rightarrow> AudioSink
    \<Rightarrow> (rat \<times> user_key \<times> byte list) list \<times> AudioSink" where
  "deliver_packets now [] s = ([], s)"
| "deliver_packets now ((t, u, pcm) # ps) s =
     (if t \<le> now then deliver_packets now ps (sink_write u pcm t s)
      else ((t, u, pcm) # ps, s))"

definition deliver :: "world \<Rightarrow> world" where
  "deliver w =
     (case deliver_packets (clock w) (pending w) (sink w) of
        (ps, s) \<Rightarrow> w\<lparr>pending := ps, sink := s\<rparr>)"

text \<open>\<^verbatim>\<open>os.remove(path)\<close> / \<^verbatim>\<open>os.unlink(path)\<close> of an existing file.\<close>

definition os_remove :: "string \<Rightarrow> world \<Rightarrow> world" where
  "os_remove path w = w\<lparr>files := files w - {path}, unlinked := unlinked w @ [path]\<rparr>"

text \<open>
  \<^verbatim>\<open>
  def _on_playback_done(self, error, audio_path):
      ...
      try:
          if audio_path and os.path.exists(audio_path):
              os.unlink(audio_path)
      except Exception as e: ...
  \<close>
  The error is only logged.
\<close>

definition on_playback_done :: "py_error option \<Rightarrow> string \<Rightarrow> world \<Rightarrow> world" where
  "on_playback_done error audio_path w =
     (if audio_path \<noteq> [] \<and> audio_path \<in> files w then os_remove audio_path w else w)"

text \<open>
  The player finishes when its time has come: it stops playing and then calls the
  function that \<^verbatim>\<open>voice_client.play(..., after=...)\<close> registered.
\<close>

definition player_finish :: "world \<Rightarrow> world" where
  "player_finish w =
     (case player w of
        None \<Rightarrow> w
      | Some (path, t_end) \<Rightarrow>
          if t_end \<le> clock w then on_playback_done None path (w\<lparr>player := None\<rparr>) else w)"

text \<open>The task is suspended for \<open>d\<close> seconds (a negative delay counts as none).\<close>

definition advance :: "rat \<Rightarrow> world \<Rightarrow> world" where
  "advance d w = player_finish (deliver (w\<lparr>clock := clock w + max 0 d\<rparr>))"

text \<open>\<^verbatim>\<open>await asyncio.sleep(d)\<close>\<close>

definition sleep :: "rat \<Rightarrow> world \<Rightarrow> world" where
  "sleep d w = advance d (emit (Sleep d) w)"

text \<open>
  \<^verbatim>\<open>await asyncio.sleep(0.1)\<close> in the two polling loops. The polls are not entered in the
  list of events; the time they take passes all the same.
\<close>

definition poll_tick :: "world \<Rightarrow> world" where
  "poll_tick w = advance (1/10) w"

text \<open>\<^verbatim>\<open>voice_client.is_playing()\<close>\<close>

definition is_playing :: "world \<Rightarrow> bool" where
  "is_playing w = (player w \<noteq> None)"

lemma clock_deliver [simp]: "clock (deliver w) = clock w"
  by (simp add: deliver_def split: prod.splits)

lemma clock_player_finish [simp]: "clock (player_finish w) = clock w"
  by (simp add: player_finish_def on_playback_done_def os_remove_def split: option.splits)

lemma clock_advance [simp]: "clock (advance d w) = clock w + max 0 d"
  by (simp add: advance_def)

lemma clock_sleep [simp]: "clock (sleep d w) = clock w + max 0 d"
  by (simp add: sleep_def emit_def)

lemma clock_poll_tick [simp]: "clock (poll_tick w) = clock w + 1/10"
  by (simp add: poll_tick_def)

section \<open>The language-model client (llm\_client.py, generate\_response\_async)\<close>

record llm_config =
  retry_attempts :: int
  retry_delay :: rat

text \<open>
  What one POST to the completion endpoint does: it answers 200 with a body from which the
  content is read, it answers 200 with a body that cannot be read (the lookup raises), it
  answers with another status, it times out, or the transport raises.
\<close>

datatype attempt_outcome =
    Reply string
  | BadBody
  | HttpStatus nat
  | TimedOut
  | TransportError

text \<open>
  \<^verbatim>\<open>
  for attempt in range(self.retry_attempts):
      try:
          async with aiohttp.ClientSession() as session:
              async with session.post(...) as response:
                  if response.status == 200:
                      data = await response.json()
                      return data['choices'][0]['message']['content'].strip()
                  else:
                      if attempt < self.retry_attempts - 1:
                          await asyncio.sleep(self.retry_delay)
      except asyncio.TimeoutError:
          if attempt < self.retry_attempts - 1:
              await asyncio.sleep(self.retry_delay)
      except Exception as e:
          if attempt < self.retry_attempts - 1:
              await asyncio.sleep(self.retry_delay)
  return "[LM Studio unavailable]"
  \<close>
  \<open>outcome k\<close> is what the POST of attempt \<open>k\<close> does and \<open>latency\<close> the time it takes.
\<close>

definition llm_unavailable :: string where
  "llm_unavailable = ''[LM Studio unavailable]''"

definition retry_pause :: "llm_config \<Rightarrow> nat \<Rightarrow> world \<Rightarrow> world" where
  "retry_pause cfg attempt w =
     (if int attempt < retry_attempts cfg - 1 then sleep (retry_delay cfg) w else w)"

function llm_attempts :: "llm_config \<Rightarrow> (nat \<Rightarrow> attempt_outcome) \<Rightarrow> rat \<Rightarrow> nat \<Rightarrow> world
    \<Rightarrow> string \<times> world" where
  "llm_attempts cfg outcome latency attempt w =
     (if int attempt < retry_attempts cfg then
        (let w1 = advance latency (emit (LLMPost attempt) w) in
         case outcome attempt of
           Reply content \<Rightarrow> (py_strip content, w1)
         | BadBody \<Rightarrow> llm_attempts cfg outcome latency (Suc attempt) (retry_pause cfg attempt w1)
         | HttpStatus code \<Rightarrow>
             llm_attempts cfg outcome latency (Suc attempt) (retry_pause cfg attempt w1)
         | TimedOut \<Rightarrow> llm_attempts cfg outcome latency (Suc attempt) (retry_pause cfg attempt w1)
         | TransportError \<Rightarrow>
             llm_attempts cfg outcome latency (Suc attempt) (retry_pause cfg attempt w1))
      else (llm_unavailable, w))"
  by pat_completeness auto
termination
  by (relation "measure (\<lambda>(cfg, outcome, latency, attempt, w). nat (retry_attempts cfg - int attempt))")
    auto

declare llm_attempts.simps [simp del]

definition generate_response_async :: "llm_config \<Rightarrow> (nat \<Rightarrow> attempt_outcome) \<Rightarrow> rat \<Rightarrow> world
    \<Rightarrow> string \<times> world" where
  "generate_response_async cfg outcome latency w = llm_attempts cfg outcome latency 0 w"

section \<open>Waiting for the end of an utterance (voice\_handler.py, record\_audio\_from\_channel)\<close>

text \<open>
  What the handler and the loop are given: the silence timeout read from the configuration
  (\<^verbatim>\<open>self.silence_timeout\<close>), whether a log channel was passed, the retry settings of
  the language-model client.
\<close>

record session_config =
  silence_timeout :: rat
  has_log_channel :: bool
  llm :: llm_config

text \<open>
  What the surroundings do during one pass of the loop body: whether the guild is in
  \<^verbatim>\<open>voice_clients\<close> at each of the three places that ask, the members of the voice
  channel, what the recognizer, the language model and the synthesizer answer and how long
  they take, the files the synthesizer has written when it returns, whether creating the
  audio source or starting the player raises, and how long the player plays.
\<close>

record turn_env =
  loop_connected :: bool
  record_connected :: bool
  members :: "(int \<times> string) list"
  stt_result :: "py_error + string"
  stt_latency :: rat
  process_connected :: bool
  llm_outcome :: "nat \<Rightarrow> attempt_outcome"
  llm_latency :: rat
  tts_result :: "string option"
  tts_files :: "string set"
  tts_latency :: rat
  source_raises :: bool
  play_raises :: bool
  play_duration :: rat

datatype wait_outcome = Silence | Ceiling

text \<open>
  \<^verbatim>\<open>
  while time.time() - last_packet_time < duration:
      await asyncio.sleep(0.1)
      if sink.last_packet_time > last_packet_time:
          last_packet_time = sink.last_packet_time
      # Timeout after 30s total
      if time.time() - start_wait > 30:
          return None
  \<close>
  The result says how the loop ended, the last packet time it had seen, and the world.
\<close>

function wait_for_silence :: "rat \<Rightarrow> rat \<Rightarrow> rat \<Rightarrow> world \<Rightarrow> wait_outcome \<times> rat \<times> world" where
  "wait_for_silence duration start_wait last_seen w =
     (if clock w - last_seen < duration then
        (let w1 = poll_tick w;
             seen1 = (if last_packet_time (sink w1) > last_seen
                      then last_packet_time (sink w1) else last_seen)
         in if clock w1 - start_wait > 30 then (Ceiling, seen1, w1)
            else wait_for_silence duration start_wait seen1 w1)
      else (Silence, last_seen, w))"
  by pat_completeness auto
termination
proof (relation "measure (\<lambda>(duration, start_wait, last_seen, w).
                   nat \<lceil>(start_wait + 30 - clock w) * 10\<rceil>)", goal_cases)
  case 1
  show ?case by simp
next
  case (2 duration start_wait last_seen w w1 seen1)
  define x where "x = (start_wait + 30 - clock w1) * 10"
  define y where "y = (start_wait + 30 - clock w) * 10"
  from 2 have c: "clock w1 = clock w + 1/10" by simp
  from 2 have "0 \<le> x" by (simp add: x_def)
  then have "0 \<le> \<lceil>x\<rceil>" by simp
  moreover have "y = x + 1"
    by (simp add: x_def y_def c algebra_simps)
  then have "\<lceil>y\<rceil> = \<lceil>x\<rceil> + 1" by (simp only: ceiling_add_one)
  ultimately have "nat \<lceil>x\<rceil> < nat \<lceil>y\<rceil>" by simp
  then show ?case using 2 by (simp add: x_def y_def)
qed

declare wait_for_silence.simps [simp del]

record turn =
  audio :: "rat list"
  speaker :: user_key
  username :: string

text \<open>
  \<^verbatim>\<open>
  username = "Unknown User"
  for member in voice_client.channel.members:
      if member.id == user_id:
          username = member.name
          break
  \<close>
\<close>

fun lookup_username :: "(int \<times> string) list \<Rightarrow> user_key \<Rightarrow> string" where
  "lookup_username [] u = ''Unknown User''"
| "lookup_username ((i, name) # ms) u =
     (if Some i = u then name else lookup_username ms u)"

text \<open>
  \<^verbatim>\<open>
  if guild_id not in self.voice_clients:
      return None
  start_wait = time.time()
  last_packet_time = sink.last_packet_time
  while ...                     (wait_for_silence; the ceiling returns None)
  if not sink.audio_data:
      return None
  user_id = list(sink.audio_data.keys())[0]
  audio_array = sink.get_audio_data(user_id)
  if audio_array is None:
      return None
  ...                           (username)
  sink.cleanup()
  sink.audio_data = {}
  return {'audio': audio_array, 'user_id': user_id, 'username': username}
  \<close>
\<close>

definition extract_turn :: "turn_env \<Rightarrow> world \<Rightarrow> turn option \<times> world" where
  "extract_turn env w =
     (case audio_data (sink w) of
        [] \<Rightarrow> (None, w)
      | (u, b) # rest \<Rightarrow>
          (case get_audio_data u (sink w) of
             None \<Rightarrow> (None, w)
           | Some audio_array \<Rightarrow>
               (Some \<lparr>audio = audio_array, speaker = u,
                      username = lookup_username (members env) u\<rparr>,
                emit SinkReset (w\<lparr>sink := (sink_cleanup (sink w))\<lparr>audio_data := []\<rparr>\<rparr>))))"

definition record_audio_from_channel :: "turn_env \<Rightarrow> rat \<Rightarrow> world \<Rightarrow> turn option \<times> world" where
  "record_audio_from_channel env duration w =
     (if \<not> record_connected env then (None, w)
      else (case wait_for_silence duration (clock w) (last_packet_time (sink w)) (emit Listen w) of
              (Ceiling, seen, w1) \<Rightarrow> (None, w1)
            | (Silence, seen, w1) \<Rightarrow> extract_turn env w1))"

text \<open>The default of the parameter \<^verbatim>\<open>duration: float = 3.0\<close>.\<close>

definition default_duration :: rat where
  "default_duration = 3"

section \<open>One reply (voice\_handler.py, process\_voice\_message)\<close>

text \<open>
  \<^verbatim>\<open>
  timeout = 30
  waited = 0
  while voice_client.is_playing() and waited < timeout:
      await asyncio.sleep(0.1)
      waited += 0.1
  \<close>
  \<open>waited\<close> is exact here. In the source it is a float: after 300 additions of 0.1 it is
  30.000000000000156, so the source makes at most 300 polls as well.
\<close>

function play_wait :: "rat \<Rightarrow> world \<Rightarrow> world" where
  "play_wait waited w =
     (if is_playing w \<and> waited < 30 then play_wait (waited + 1/10) (poll_tick w) else w)"
  by pat_completeness auto
termination
proof (relation "measure (\<lambda>(waited, w). nat \<lceil>(30 - waited) * 10\<rceil>)", goal_cases)
  case 1
  show ?case by simp
next
  case (2 waited w)
  define x where "x = (30 - (waited + 1/10)) * 10"
  define y where "y = (30 - waited) * 10"
  have "y = x + 1" by (simp add: x_def y_def algebra_simps)
  then have e: "\<lceil>y\<rceil> = \<lceil>x\<rceil> + 1" by (simp only: ceiling_add_one)
  from 2 have "0 < y" by (simp add: y_def)
  then have "0 < \<lceil>y\<rceil>" by simp
  with e have "nat \<lceil>x\<rceil> < nat \<lceil>y\<rceil>" by simp
  then show ?case by (simp add: x_def y_def)
qed

declare play_wait.simps [simp del]

text \<open>
  The body of the inner \<^verbatim>\<open>try\<close>: create the audio source, post the reply to the log
  channel (a failure of the post is caught on the spot), start the player, wait. The player
  of the voice client refuses to start while it is playing. An exception leaves the block
  with the world as it was then.
  \<^verbatim>\<open>
  audio_source = discord.FFmpegPCMAudio(audio_path, options='-af aresample=48000')
  if log_channel:
      try:
          await log_channel.send(f"**Merith (Voice):** {response}")
      except Exception as e: ...
  voice_client.play(audio_source, after=lambda e: self._on_playback_done(e, audio_path))
  ...                                   (play_wait)
  return True
  \<close>
\<close>

definition playback :: "session_config \<Rightarrow> turn_env \<Rightarrow> string \<Rightarrow> string \<Rightarrow> world
    \<Rightarrow> (py_error \<times> world) + world" where
  "playback h env response audio_path w =
     (let w1 = emit (CreateSource audio_path) w in
      if source_raises env then Inl (OtherException, w1)
      else
        (let w2 = (if has_log_channel h
                   then emit (LogSend (''**Merith (Voice):** '' @ response)) w1 else w1);
             w3 = emit (Play audio_path) w2
         in if is_playing w3 \<or> play_raises env then Inl (ClientException, w3)
            else Inr (play_wait 0 (w3\<lparr>player := Some (audio_path, clock w3 + play_duration env)\<rparr>))))"

text \<open>
  \<^verbatim>\<open>
  except Exception as playback_err:
      try:
          if os.path.exists(audio_path):
              os.remove(audio_path)
      except Exception as cleanup_err: ...
      raise
  \<close>
\<close>

definition playback_error_cleanup :: "string \<Rightarrow> world \<Rightarrow> world" where
  "playback_error_cleanup audio_path w =
     (if audio_path \<in> files w then os_remove audio_path (emit (Remove audio_path) w) else w)"

text \<open>
  \<^verbatim>\<open>
  if guild_id not in self.voice_clients:
      return False
  try:
      response = await self.llm_client.generate_response_async(
          user_message=user_message, voice_mode=True, max_tokens=100)
      if not response or response.startswith("["):
          return False
      audio_path = await self.tts_engine.synthesize_async(response)
      if not audio_path:
          return False
      if not os.path.exists(audio_path):
          return False
      try: ...                          (playback)
      except Exception as playback_err: ...   (playback_error_cleanup; raise)
  except Exception as e:
      return False
  \<close>
\<close>

definition synthesize_async :: "turn_env \<Rightarrow> string \<Rightarrow> world \<Rightarrow> string option \<times> world" where
  "synthesize_async env response w =
     (let w1 = advance (tts_latency env) (emit (Synthesize response) w)
      in (tts_result env, w1\<lparr>files := files w1 \<union> tts_files env\<rparr>))"

definition process_voice_message :: "session_config \<Rightarrow> turn_env \<Rightarrow> string \<Rightarrow> world
    \<Rightarrow> bool \<times> world" where
  "process_voice_message h env user_message w =
     (if \<not> process_connected env then (False, w)
      else
        (case generate_response_async (llm h) (llm_outcome env) (llm_latency env) w of
           (response, w1) \<Rightarrow>
             if response = [] \<or> starts_with_bracket response then (False, w1)
             else
               (case synthesize_async env response w1 of
                  (None, w2) \<Rightarrow> (False, w2)
                | (Some audio_path, w2) \<Rightarrow>
                    if audio_path = [] then (False, w2)
                    else if audio_path \<notin> files w2 then (False, w2)
                    else
                      (case playback h env response audio_path w2 of
                         Inr w3 \<Rightarrow> (True, w3)
                       | Inl (err, w3) \<Rightarrow> (False, playback_error_cleanup audio_path w3)))))"

section \<open>The session loop (voice\_handler.py, full\_voice\_loop)\<close>

text \<open>
  One pass of the body of \<^verbatim>\<open>while guild_id in self.voice_clients\<close>:
  \<^verbatim>\<open>
  audio_result = await self.record_audio_from_channel(guild, sink)
  if audio_result is None:
      await asyncio.sleep(0.5); continue
  user_message = await loop.run_in_executor(None, lambda: self.stt_engine.transcribe(...))
  if not user_message or user_message.startswith("["):
      await asyncio.sleep(0.5); continue
  if user_message.replace(".", "").replace(" ", "").strip() == "":
      await asyncio.sleep(0.5); continue
  if log_channel:
      try: await log_channel.send(f"**{username} (Voice):** {user_message}")
      except Exception as e: ...
  await self.process_voice_message(guild, user_message, log_channel=log_channel)
  await asyncio.sleep(0)
  \<close>
  with \<^verbatim>\<open>except Exception\<close> around it, which logs and sleeps one second. The call of
  \<^verbatim>\<open>record_audio_from_channel\<close> passes no duration.
\<close>

definition is_noise :: "string \<Rightarrow> bool" where
  "is_noise user_message =
     (py_strip (remove_char CHR '' '' (remove_char CHR ''.'' user_message)) = [])"

definition run_turn :: "session_config \<Rightarrow> turn_env \<Rightarrow> turn \<Rightarrow> world \<Rightarrow> world" where
  "run_turn h env t w =
     (let w1 = advance (stt_latency env) (emit (Transcribe (audio t)) w) in
      case stt_result env of
        Inl err \<Rightarrow> sleep 1 (emit LoopError w1)
      | Inr user_message \<Rightarrow>
          if user_message = [] \<or> starts_with_bracket user_message then sleep (1/2) w1
          else if is_noise user_message then sleep (1/2) w1
          else
            (let w2 = (if has_log_channel h
                       then emit (LogSend (''**'' @ username t @ '' (Voice):** '' @ user_message)) w1
                       else w1)
             in sleep 0 (snd (process_voice_message h env user_message w2))))"

definition voice_loop_iteration :: "session_config \<Rightarrow> turn_env \<Rightarrow> world \<Rightarrow> world" where
  "voice_loop_iteration h env w =
     (case record_audio_from_channel env default_duration w of
        (None, w1) \<Rightarrow> sleep (1/2) w1
      | (Some t, w1) \<Rightarrow> emit TurnDone (run_turn h env t (emit TurnExtracted w1)))"

text \<open>
  The \<^verbatim>\<open>finally\<close> of the loop: \<^verbatim>\<open>voice_client.stop_listening(); sink.cleanup()\<close>.
\<close>

definition stop_session :: "world \<Rightarrow> world" where
  "stop_session w = (emit StopListening w)\<lparr>sink := sink_cleanup (sink w)\<rparr>"

text \<open>
  The loop runs as long as the guild is in \<^verbatim>\<open>voice_clients\<close>. A run is followed for
  as many passes as there are environments in the list; the list ending stands for the
  observation ending (or the task being cancelled between two passes), not for the loop
  returning.
\<close>

fun voice_loop :: "session_config \<Rightarrow> turn_env list \<Rightarrow> world \<Rightarrow> world" where
  "voice_loop h [] w = w"
| "voice_loop h (env # envs) w =
     (if loop_connected env then voice_loop h envs (voice_loop_iteration h env w)
      else stop_session w)"

text \<open>
  \<^verbatim>\<open>
  guild_id = guild.id
  voice_client = self.voice_clients[guild_id]
  sink = AudioSink()
  voice_client.listen(sink)
  \<close>
  then the loop. The lookup raises KeyError when the guild is not in \<^verbatim>\<open>voice_clients\<close> as
  the task starts: it stands before the \<^verbatim>\<open>try\<close>, so the task ends there, having made no
  sink and done nothing (the world is as it was). There is no \<^verbatim>\<open>await\<close> between the lookup
  and the first test of the loop, so what the first environment says about the loop's test
  holds at the lookup too. A new sink has no buffers and the time of its creation as last
  packet time.
\<close>

definition full_voice_loop :: "session_config \<Rightarrow> turn_env list \<Rightarrow> world \<Rightarrow> world" where
  "full_voice_loop h envs w =
     (case envs of
        [] \<Rightarrow> w\<lparr>sink := \<lparr>audio_data = [], last_packet_time = clock w\<rparr>\<rparr>
      | env # rest \<Rightarrow>
          if \<not> loop_connected env then w
          else voice_loop h envs (w\<lparr>sink := \<lparr>audio_data = [], last_packet_time = clock w\<rparr>\<rparr>))"

section \<open>Joining and leaving (voice\_handler.py and discord\_client.py)\<close>

text \<open>
  A task made by \<^verbatim>\<open>asyncio.create_task\<close> runs \<^verbatim>\<open>full_voice_loop\<close> for one guild. It
  is running until its loop returns or until \<^verbatim>\<open>cancel()\<close> is called on it: a cancelled
  task gets \<^verbatim>\<open>CancelledError\<close> at the \<^verbatim>\<open>await\<close> where it is suspended, which no
  \<^verbatim>\<open>except Exception\<close> of the pipeline catches, so it performs no further stage, only
  the \<^verbatim>\<open>finally\<close> of the loop.
\<close>

datatype task_status = Running | Cancelled | Finished

record task =
  task_guild :: int
  task_status :: task_status

text \<open>
  \<^verbatim>\<open>VoiceHandler.voice_clients\<close> maps a guild id to its voice client (a number stands for
  the client object), \<open>connected\<close> holds the clients that are connected,
  \<^verbatim>\<open>MerithBot.voice_loops\<close> maps a guild id to its task (the index in \<open>tasks\<close>).
\<close>

record bot_state =
  voice_clients :: "int \<Rightarrow> nat option"
  connected :: "nat set"
  voice_loops :: "int \<Rightarrow> nat option"
  tasks :: "task list"

text \<open>
  What the gateway does during one join: whether the user is in a voice channel, whether
  disconnecting the old client raises, the client that \<^verbatim>\<open>channel.connect()\<close> returns
  (none when it raises), whether sending the confirmation raises.
\<close>

record join_env =
  in_voice_channel :: bool
  disconnect_raises :: bool
  connect_result :: "nat option"
  send_raises :: bool

text \<open>
  \<^verbatim>\<open>
  if not member.voice or not member.voice.channel:
      return False
  channel = member.voice.channel
  guild_id = channel.guild.id
  try:
      if guild_id in self.voice_clients:
          await self.voice_clients[guild_id].disconnect()
      voice_client = await channel.connect()
      self.voice_clients[guild_id] = voice_client
      return True
  except Exception as e:
      return False
  \<close>
\<close>

definition join_voice_channel :: "join_env \<Rightarrow> int \<Rightarrow> bot_state \<Rightarrow> bool \<times> bot_state" where
  "join_voice_channel env guild_id s =
     (if \<not> in_voice_channel env then (False, s)
      else
        (case (case voice_clients s guild_id of
                 None \<Rightarrow> Some s
               | Some old \<Rightarrow>
                   if disconnect_raises env then None
                   else Some (s\<lparr>connected := connected s - {old}\<rparr>)) of
           None \<Rightarrow> (False, s)
         | Some s1 \<Rightarrow>
             (case connect_result env of
                None \<Rightarrow> (False, s1)
              | Some voice_client \<Rightarrow>
                  (True, s1\<lparr>voice_clients := (voice_clients s1)(guild_id \<mapsto> voice_client),
                            connected := insert voice_client (connected s1)\<rparr>))))"

text \<open>
  \<^verbatim>\<open>
  if not interaction.user.voice:
      await interaction.response.send_message(...)
      return
  try:
      success = await self.voice_handler.join_voice_channel(interaction.user)
      if success:
          await interaction.response.send_message(...)
          guild_id = interaction.guild.id
          if guild_id not in self.voice_loops:
              log_channel = await self._get_log_channel(interaction.guild)
              task = asyncio.create_task(self.voice_handler.full_voice_loop(...))
              self.voice_loops[guild_id] = task
      else:
          await interaction.response.send_message("... Failed to join voice channel")
  except Exception as e: ...
  \<close>
  \<^verbatim>\<open>_get_log_channel\<close> has no \<^verbatim>\<open>await\<close> in it, so nothing else runs between the test
  and the assignment.
\<close>

definition start_voice_loop :: "int \<Rightarrow> bot_state \<Rightarrow> bot_state" where
  "start_voice_loop guild_id s =
     (if voice_loops s guild_id = None
      then s\<lparr>voice_loops := (voice_loops s)(guild_id \<mapsto> length (tasks s)),
             tasks := tasks s @ [\<lparr>task_guild = guild_id, task_status = Running\<rparr>]\<rparr>
      else s)"

definition join_voice :: "join_env \<Rightarrow> int \<Rightarrow> bot_state \<Rightarrow> bot_state" where
  "join_voice env guild_id s =
     (if \<not> in_voice_channel env then s
      else
        (case join_voice_channel env guild_id s of
           (True, s1) \<Rightarrow> if send_raises env then s1 else start_voice_loop guild_id s1
         | (False, s1) \<Rightarrow> s1))"

text \<open>\<^verbatim>\<open>task.cancel()\<close>\<close>

definition cancel_task :: "nat \<Rightarrow> bot_state \<Rightarrow> bot_state" where
  "cancel_task t s =
     (if t < length (tasks s) \<and> task_status (tasks s ! t) = Running
      then s\<lparr>tasks := (tasks s)[t := (tasks s ! t)\<lparr>task_status := Cancelled\<rparr>]\<rparr>
      else s)"

text \<open>
  \<^verbatim>\<open>
  if guild_id in self.voice_clients:
      await self.voice_clients[guild_id].disconnect()
      del self.voice_clients[guild_id]
      return True
  else:
      return False
  \<close>
  inside \<^verbatim>\<open>try\<close>; an exception gives \<^verbatim>\<open>False\<close>.
\<close>

definition leave_voice_channel :: "bool \<Rightarrow> int \<Rightarrow> bot_state \<Rightarrow> bool \<times> bot_state" where
  "leave_voice_channel raises guild_id s =
     (case voice_clients s guild_id of
        None \<Rightarrow> (False, s)
      | Some c \<Rightarrow>
          if raises then (False, s)
          else (True, s\<lparr>connected := connected s - {c},
                         voice_clients := (voice_clients s)(guild_id := None)\<rparr>))"

text \<open>
  \<^verbatim>\<open>
  guild_id = interaction.guild.id
  if guild_id in self.voice_loops:
      self.voice_loops[guild_id].cancel()
      del self.voice_loops[guild_id]
  success = await self.voice_handler.leave_voice_channel(interaction.guild)
  \<close>
\<close>

definition leave_voice :: "bool \<Rightarrow> int \<Rightarrow> bot_state \<Rightarrow> bot_state" where
  "leave_voice raises guild_id s =
     (let s1 = (case voice_loops s guild_id of
                  None \<Rightarrow> s
                | Some t \<Rightarrow> (cancel_task t s)\<lparr>voice_loops := (voice_loops s)(guild_id := None)\<rparr>)
      in snd (leave_voice_channel raises guild_id s1))"

text \<open>The loop of a running task returns (its guild left \<^verbatim>\<open>voice_clients\<close>, or a fatal error).\<close>

definition task_returns :: "nat \<Rightarrow> bot_state \<Rightarrow> bot_state" where
  "task_returns t s =
     (if t < length (tasks s) \<and> task_status (tasks s ! t) = Running
      then s\<lparr>tasks := (tasks s)[t := (tasks s ! t)\<lparr>task_status := Finished\<rparr>]\<rparr>
      else s)"

text \<open>
  What happens to the bot, one command or task end after the other (the scheduler runs
  one of them at a time between two suspensions).
\<close>

datatype command =
    JoinVoice join_env int
  | LeaveVoice bool int
  | TaskReturns nat

fun step :: "command \<Rightarrow> bot_state \<Rightarrow> bot_state" where
  "step (JoinVoice env guild_id) s = join_voice env guild_id s"
| "step (LeaveVoice raises guild_id) s = leave_voice raises guild_id s"
| "step (TaskReturns t) s = task_returns t s"

fun run :: "command list \<Rightarrow> bot_state \<Rightarrow> bot_state" where
  "run [] s = s"
| "run (c # cs) s = run cs (step c s)"

definition initial_state :: bot_state where
  "initial_state = \<lparr>voice_clients = Map.empty, connected = {}, voice_loops = Map.empty, tasks = []\<rparr>"

text \<open>The tasks that are running the loop of a guild.\<close>

definition running_tasks :: "bot_state \<Rightarrow> int \<Rightarrow> nat list" where
  "running_tasks s guild_id =
     filter (\<lambda>t. task_guild (tasks s ! t) = guild_id \<and> task_status (tasks s ! t) = Running)
       [0..<length (tasks s)]"

text \<open>Every running task is the one that \<^verbatim>\<open>voice_loops\<close> holds for its guild.\<close>

definition registered :: "bot_state \<Rightarrow> bool" where
  "registered s =
     (\<forall>t < length (tasks s). task_status (tasks s ! t) = Running \<longrightarrow>
        voice_loops s (task_guild (tasks s ! t)) = Some t)"

text \<open>
  The entries and exits of pipeline runs in a list of events do not overlap, and no
  listening phase begins inside a run. \<open>busy\<close> says whether a run is in progress.
\<close>

fun sequential :: "bool \<Rightarrow> event list \<Rightarrow> bool" where
  "sequential busy [] = True"
| "sequential busy (Listen # es) = (\<not> busy \<and> sequential busy es)"
| "sequential busy (TurnExtracted # es) = (\<not> busy \<and> sequential True es)"
| "sequential busy (TurnDone # es) = (busy \<and> sequential False es)"
| "sequential busy (e # es) = sequential busy es"

section \<open>Notions used in the statements\<close>

text \<open>The events that the task added between the world \<open>w\<close> and the later world \<open>w'\<close>.\<close>

definition new_events :: "world \<Rightarrow> world \<Rightarrow> event list" where
  "new_events w w' = drop (length (trace w)) (trace w')"

text \<open>
  From \<open>w\<close> to \<open>w'\<close> the task only added events, and each of them satisfies \<open>P\<close>.
\<close>

definition extends :: "(event \<Rightarrow> bool) \<Rightarrow> world \<Rightarrow> world \<Rightarrow> bool" where
  "extends P w w' =
     (take (length (trace w)) (trace w') = trace w \<and> list_all P (new_events w w'))"

text \<open>Events that neither begin a listening phase nor enter or leave a pipeline run.\<close>

fun within_turn :: "event \<Rightarrow> bool" where
  "within_turn Listen = False"
| "within_turn TurnExtracted = False"
| "within_turn TurnDone = False"
| "within_turn StopListening = False"
| "within_turn SinkReset = False"
| "within_turn e = True"

text \<open>Whether a pipeline run is in progress after the events, given whether one was before.\<close>

fun busy_after :: "bool \<Rightarrow> event list \<Rightarrow> bool" where
  "busy_after busy [] = busy"
| "busy_after busy (TurnExtracted # es) = busy_after True es"
| "busy_after busy (TurnDone # es) = busy_after False es"
| "busy_after busy (e # es) = busy_after busy es"

text \<open>The events of a call of the language-model client: its POSTs and its pauses.\<close>

fun llm_event :: "event \<Rightarrow> bool" where
  "llm_event (LLMPost k) = True"
| "llm_event (Sleep d) = True"
| "llm_event e = False"

text \<open>The events of speaking a reply: synthesis, creation of the audio source, playing.\<close>

fun speech_event :: "event \<Rightarrow> bool" where
  "speech_event (Synthesize s) = True"
| "speech_event (CreateSource p) = True"
| "speech_event (Play p) = True"
| "speech_event e = False"

text \<open>The number of listening phases begun in a list of events.\<close>

definition listens :: "event list \<Rightarrow> nat" where
  "listens es = length (filter (\<lambda>e. e = Listen) es)"

text \<open>The POSTs to the language model in a list of events.\<close>

fun is_post :: "event \<Rightarrow> bool" where
  "is_post (LLMPost k) = True"
| "is_post e = False"

definition posts :: "event list \<Rightarrow> nat" where
  "posts es = length (filter is_post es)"

fun is_reply :: "attempt_outcome \<Rightarrow> bool" where
  "is_reply (Reply content) = True"
| "is_reply r = False"

text \<open>
  The events of a call in which every attempt from \<open>k\<close> on fails: a POST for each
  attempt, and the configured delay after each but the last.
\<close>

definition exhausted_events :: "llm_config \<Rightarrow> nat \<Rightarrow> event list" where
  "exhausted_events cfg k =
     concat (map (\<lambda>i. LLMPost i #
                        (if int i < retry_attempts cfg - 1 then [Sleep (retry_delay cfg)] else []))
                 [k ..< nat (retry_attempts cfg)])"

text \<open>Creating the audio source and starting the player.\<close>

fun play_event :: "event \<Rightarrow> bool" where
  "play_event (CreateSource p) = True"
| "play_event (Play p) = True"
| "play_event e = False"



text \<open>The resets of the sink in a list of events.\<close>

definition resets :: "event list \<Rightarrow> nat" where
  "resets es = length (filter (\<lambda>e. e = SinkReset) es)"

text \<open>
  Between \<open>w\<close> and \<open>w'\<close> nothing but the receiver has touched the sink: either no time has
  passed and the sink and the packets to come are the same, or the receiver has written
  into the sink of \<open>w\<close> every packet that arrived up to the time of \<open>w'\<close>, in the order of
  arrival, and the others are still to come.
\<close>

definition arrivals :: "world \<Rightarrow> world \<Rightarrow> bool" where
  "arrivals w w' =
     ((clock w' = clock w \<and> pending w' = pending w \<and> sink w' = sink w)
      \<or> (clock w \<le> clock w'
          \<and> deliver_packets (clock w') (pending w) (sink w) = (pending w', sink w')))"



section \<open>Example values\<close>

text \<open>
  A session as in the scenario of the specification: one speaker, packets at 0, 0.5 and 1
  second, a recognizer that hears "hello there", a language model that answers "Hi!", a
  synthesizer that writes the file P, which plays for 1.2 seconds.
\<close>

definition example_world :: world where
  "example_world =
     \<lparr>clock = 0, sink = \<lparr>audio_data = [], last_packet_time = 0\<rparr>,
      pending = [(0, Some 7, [1, 0]), (1/2, Some 7, [2, 0]), (1, Some 7, [3, 0])],
      player = None, files = {}, unlinked = [], trace = []\<rparr>"

definition example_env :: turn_env where
  "example_env =
     \<lparr>loop_connected = True, record_connected = True, members = [(7, ''U'')],
      stt_result = Inr ''hello there'', stt_latency = 1/2, process_connected = True,
      llm_outcome = (\<lambda>k. Reply ''Hi!''), llm_latency = 1,
      tts_result = Some ''P'', tts_files = {''P''}, tts_latency = 1/2,
      source_raises = False, play_raises = False, play_duration = 6/5\<rparr>"

definition example_config :: session_config where
  "example_config =
     \<lparr>silence_timeout = 3, has_log_channel = True,
      llm = \<lparr>retry_attempts = 3, retry_delay = 1\<rparr>\<rparr>"

text \<open>A join during which \<^verbatim>\<open>channel.connect()\<close> raises, and one that succeeds.\<close>

definition failing_join :: join_env where
  "failing_join =
     \<lparr>in_voice_channel = True, disconnect_raises = False, connect_result = None,
      send_raises = False\<rparr>"

definition good_join :: "nat \<Rightarrow> join_env" where
  "good_join c =
     \<lparr>in_voice_channel = True, disconnect_raises = False, connect_result = Some c,
      send_raises = False\<rparr>"

text \<open>The same surroundings with a language model that never answers in time.\<close>

definition unreachable_llm_env :: turn_env where
  "unreachable_llm_env = example_env\<lparr>llm_outcome := (\<lambda>k. TimedOut)\<rparr>"

text \<open>The same surroundings with a synthesizer that returns no path.\<close>

definition failing_tts_env :: turn_env where
  "failing_tts_env = example_env\<lparr>tts_result := None, tts_files := {}\<rparr>"

text \<open>The same surroundings with a recognizer that hears only dots.\<close>

definition noise_env :: turn_env where
  "noise_env = example_env\<lparr>stt_result := Inr ''. . .''\<rparr>"


definition example_turn :: turn where
  "example_turn = \<lparr>audio = [1/32768], speaker = Some 7, username = ''U''\<rparr>"

text \<open>
  A session in which the language model takes three seconds and a second packet arrives
  while it is thinking.
\<close>

definition slow_env :: turn_env where
  "slow_env = example_env\<lparr>llm_latency := 3\<rparr>"

definition busy_world :: world where
  "busy_world =
     \<lparr>clock = 0, sink = \<lparr>audio_data = [], last_packet_time = 0\<rparr>,
      pending = [(0, Some 7, [1, 0]), (4, Some 7, [2, 0])],
      player = None, files = {}, unlinked = [], trace = []\<rparr>"

text \<open>
  The stages of the first pass of that session: the turn has been extracted (at 3 seconds),
  the recognizer has answered and the text has been logged, the language model has answered
  (at 6.5 seconds, the second packet having arrived at 4), the synthesizer has written the
  file, and the pass has ended (at 8.2 seconds, the reply having played for 1.2 seconds).
\<close>

definition extracted_world :: world where
  "extracted_world =
     \<lparr>clock = 3, sink = \<lparr>audio_data = [], last_packet_time = 0\<rparr>,
      pending = [(4, Some 7, [2, 0])], player = None, files = {}, unlinked = [],
      trace = [Listen, SinkReset]\<rparr>"

definition heard_world :: world where
  "heard_world =
     \<lparr>clock = 7/2, sink = \<lparr>audio_data = [], last_packet_time = 0\<rparr>,
      pending = [(4, Some 7, [2, 0])], player = None, files = {}, unlinked = [],
      trace = [Listen, SinkReset, TurnExtracted, Transcribe [1/32768],
               LogSend ''**U (Voice):** hello there'']\<rparr>"

definition answered_world :: world where
  "answered_world =
     \<lparr>clock = 13/2, sink = \<lparr>audio_data = [(Some 7, [2, 0])], last_packet_time = 4\<rparr>,
      pending = [], player = None, files = {}, unlinked = [],
      trace = [Listen, SinkReset, TurnExtracted, Transcribe [1/32768],
               LogSend ''**U (Voice):** hello there'', LLMPost 0]\<rparr>"

definition voiced_world :: world where
  "voiced_world =
     \<lparr>clock = 7, sink = \<lparr>audio_data = [(Some 7, [2, 0])], last_packet_time = 4\<rparr>,
      pending = [], player = None, files = {''P''}, unlinked = [],
      trace = [Listen, SinkReset, TurnExtracted, Transcribe [1/32768],
               LogSend ''**U (Voice):** hello there'', LLMPost 0, Synthesize ''Hi!'']\<rparr>"

definition played_world :: world where
  "played_world =
     \<lparr>clock = 41/5, sink = \<lparr>audio_data = [(Some 7, [2, 0])], last_packet_time = 4\<rparr>,
      pending = [], player = None, files = {}, unlinked = [''P''],
      trace = [Listen, SinkReset, TurnExtracted, Transcribe [1/32768],
               LogSend ''**U (Voice):** hello there'', LLMPost 0, Synthesize ''Hi!'',
               CreateSource ''P'', LogSend ''**Merith (Voice):** Hi!'', Play ''P'']\<rparr>"

definition first_turn_world :: world where
  "first_turn_world =
     \<lparr>clock = 41/5, sink = \<lparr>audio_data = [(Some 7, [2, 0])], last_packet_time = 4\<rparr>,
      pending = [], player = None, files = {}, unlinked = [''P''],
      trace = [Listen, SinkReset, TurnExtracted, Transcribe [1/32768],
               LogSend ''**U (Voice):** hello there'', LLMPost 0, Synthesize ''Hi!'',
               CreateSource ''P'', LogSend ''**Merith (Voice):** Hi!'', Play ''P'', Sleep 0,
               TurnDone]\<rparr>"

text \<open>A world in which the last packet came 2.9 seconds ago.\<close>

definition quiet_world :: world where
  "quiet_world =
     \<lparr>clock = 29/10, sink = \<lparr>audio_data = [(Some 7, [1, 0])], last_packet_time = 0\<rparr>,
      pending = [], player = None, files = {}, unlinked = [], trace = []\<rparr>"


text \<open>
  A room in which somebody speaks all the time: a packet every 2.5 seconds, from 0 to 27.5
  seconds.
\<close>

definition chatty_world :: world where
  "chatty_world =
     \<lparr>clock = 0, sink = \<lparr>audio_data = [], last_packet_time = 0\<rparr>,
      pending = [(0, Some 7, [1, 0]), (5/2, Some 7, [1, 0]), (5, Some 7, [1, 0]),
                 (15/2, Some 7, [1, 0]), (10, Some 7, [1, 0]), (25/2, Some 7, [1, 0]),
                 (15, Some 7, [1, 0]), (35/2, Some 7, [1, 0]), (20, Some 7, [1, 0]),
                 (45/2, Some 7, [1, 0]), (25, Some 7, [1, 0]), (55/2, Some 7, [1, 0])],
      player = None, files = {}, unlinked = [], trace = []\<rparr>"





section \<open>Basic facts about the world\<close>

lemma emit_fields [simp]:
  "trace (emit e w) = trace w @ [e]" "clock (emit e w) = clock w" "sink (emit e w) = sink w"
  "pending (emit e w) = pending w" "player (emit e w) = player w" "files (emit e w) = files w"
  "unlinked (emit e w) = unlinked w"
  by (simp_all add: emit_def)

lemma deliver_fields [simp]:
  "trace (deliver w) = trace w" "player (deliver w) = player w" "files (deliver w) = files w"
  "unlinked (deliver w) = unlinked w"
  by (simp_all add: deliver_def split: prod.splits)

lemma player_finish_fields [simp]:
  "trace (player_finish w) = trace w" "sink (player_finish w) = sink w"
  "pending (player_finish w) = pending w"
  by (simp_all add: player_finish_def on_playback_done_def os_remove_def split: option.splits)

lemma advance_fields [simp]:
  "trace (advance d w) = trace w"
  by (simp_all add: advance_def)

lemma sleep_trace [simp]: "trace (sleep d w) = trace w @ [Sleep d]"
  by (simp add: sleep_def)

lemma poll_tick_trace [simp]: "trace (poll_tick w) = trace w"
  by (simp add: poll_tick_def)

lemma extends_refl [simp]: "extends P w w"
  by (simp add: extends_def new_events_def)

lemma extendsI:
  "trace w' = trace w @ es \<Longrightarrow> list_all P es \<Longrightarrow> extends P w w'"
  by (simp add: extends_def new_events_def)

lemma extendsD:
  "extends P w w' \<Longrightarrow> trace w' = trace w @ new_events w w' \<and> list_all P (new_events w w')"
  unfolding extends_def new_events_def
  by (metis append_take_drop_id)

lemma extends_trans:
  assumes "extends P w w1" and "extends P w1 w2"
  shows "extends P w w2"
proof -
  from assms(1) obtain es where a: "trace w1 = trace w @ es" "list_all P es"
    using extendsD by blast
  from assms(2) obtain fs where b: "trace w2 = trace w1 @ fs" "list_all P fs"
    using extendsD by blast
  from a b have "trace w2 = trace w @ (es @ fs)" "list_all P (es @ fs)" by simp_all
  then show ?thesis by (rule extendsI)
qed

lemma extends_mono:
  "extends P w w' \<Longrightarrow> (\<And>e. P e \<Longrightarrow> Q e) \<Longrightarrow> extends Q w w'"
  unfolding extends_def by (auto simp: list_all_iff)

lemma extends_same_trace: "trace w' = trace w \<Longrightarrow> extends P w w'"
  by (rule extendsI [where es = "[]"]) simp_all

lemma extends_step: "extends P w w1 \<Longrightarrow> trace w2 = trace w1 \<Longrightarrow> extends P w w2"
  by (metis extends_same_trace extends_trans)

lemma extends_emit: "extends P w w1 \<Longrightarrow> P e \<Longrightarrow> extends P w (emit e w1)"
  by (rule extends_trans [of P w w1]) (auto intro: extendsI [where es = "[e]"])

lemma extends_sleep: "extends P w w1 \<Longrightarrow> P (Sleep d) \<Longrightarrow> extends P w (sleep d w1)"
  by (rule extends_trans [of P w w1]) (auto intro: extendsI [where es = "[Sleep d]"])

section \<open>The events each operation adds\<close>

lemma llm_attempts_extends:
  "extends llm_event w (snd (llm_attempts cfg outcome latency attempt w))"
proof (induction cfg outcome latency attempt w rule: llm_attempts.induct)
  case (1 cfg outcome latency attempt w)
  let ?w1 = "advance latency (emit (LLMPost attempt) w)"
  let ?w2 = "retry_pause cfg attempt ?w1"
  have e1: "extends llm_event w ?w1"
    by (rule extendsI [where es = "[LLMPost attempt]"]) simp_all
  have e2: "extends llm_event w ?w2"
    unfolding retry_pause_def using e1 by (simp add: extends_sleep)
  show ?case
  proof (cases "int attempt < retry_attempts cfg")
    case False
    then show ?thesis by (subst llm_attempts.simps) simp
  next
    case True
    show ?thesis
    proof (cases "outcome attempt")
      case (Reply content)
      with True e1 show ?thesis by (subst llm_attempts.simps) simp
    next
      case BadBody
      with True have "extends llm_event ?w2 (snd (llm_attempts cfg outcome latency (Suc attempt) ?w2))"
        using "1.IH"(1) by simp
      with e2 BadBody True show ?thesis
        by (subst llm_attempts.simps) (auto intro: extends_trans)
    next
      case (HttpStatus code)
      with True have "extends llm_event ?w2 (snd (llm_attempts cfg outcome latency (Suc attempt) ?w2))"
        using "1.IH"(2) by simp
      with e2 HttpStatus True show ?thesis
        by (subst llm_attempts.simps) (auto intro: extends_trans)
    next
      case TimedOut
      with True have "extends llm_event ?w2 (snd (llm_attempts cfg outcome latency (Suc attempt) ?w2))"
        using "1.IH"(3) by simp
      with e2 TimedOut True show ?thesis
        by (subst llm_attempts.simps) (auto intro: extends_trans)
    next
      case TransportError
      with True have "extends llm_event ?w2 (snd (llm_attempts cfg outcome latency (Suc attempt) ?w2))"
        using "1.IH"(4) by simp
      with e2 TransportError True show ?thesis
        by (subst llm_attempts.simps) (auto intro: extends_trans)
    qed
  qed
qed

lemma play_wait_trace [simp]: "trace (play_wait waited w) = trace w"
proof (induction waited w rule: play_wait.induct)
  case (1 waited w)
  then show ?case by (subst play_wait.simps) simp
qed

lemma wait_for_silence_trace [simp]:
  "trace (snd (snd (wait_for_silence duration start_wait last_seen w))) = trace w"
proof (induction duration start_wait last_seen w rule: wait_for_silence.induct)
  case (1 duration start_wait last_seen w)
  then show ?case
    by (subst wait_for_silence.simps) (simp add: Let_def)
qed

lemma generate_response_extends:
  "generate_response_async cfg outcome latency w = (response, w1) \<Longrightarrow> extends llm_event w w1"
  using llm_attempts_extends [of w cfg outcome latency 0]
  by (simp add: generate_response_async_def)

lemma llm_event_within_turn: "llm_event e \<Longrightarrow> within_turn e"
  by (cases e) simp_all

lemma synthesize_trace:
  "synthesize_async env response w = (r, w1) \<Longrightarrow> trace w1 = trace w @ [Synthesize response]"
  by (auto simp: synthesize_async_def Let_def)

lemma playback_trace:
  "playback h env response audio_path w = res \<Longrightarrow>
   trace (case res of Inl (err, w') \<Rightarrow> w' | Inr w' \<Rightarrow> w') =
     trace w @ CreateSource audio_path #
       (if source_raises env then []
        else (if has_log_channel h then [LogSend (''**Merith (Voice):** '' @ response)] else [])
             @ [Play audio_path])"
  by (auto simp: playback_def Let_def)

lemma playback_extends:
  "extends within_turn w (case playback h env response audio_path w of
                            Inl (err, w') \<Rightarrow> w' | Inr w' \<Rightarrow> w')"
  by (rule extendsI, rule playback_trace [OF refl]) simp

lemma playback_error_cleanup_extends:
  "extends within_turn w (playback_error_cleanup audio_path w)"
  by (rule extendsI [where es = "if audio_path \<in> files w then [Remove audio_path] else []"])
     (simp_all add: playback_error_cleanup_def os_remove_def)

lemma process_voice_message_extends:
  "extends within_turn w (snd (process_voice_message h env user_message w))"
proof (cases "process_connected env")
  case False
  then show ?thesis by (simp add: process_voice_message_def)
next
  case True
  obtain response w1 where g:
    "generate_response_async (llm h) (llm_outcome env) (llm_latency env) w = (response, w1)"
    by (cases "generate_response_async (llm h) (llm_outcome env) (llm_latency env) w")
  then have e1: "extends within_turn w w1"
    by (meson extends_mono generate_response_extends llm_event_within_turn)
  show ?thesis
  proof (cases "response = [] \<or> starts_with_bracket response")
    case True
    with \<open>process_connected env\<close> g e1 show ?thesis
      by (simp add: process_voice_message_def)
  next
    case False
    obtain r w2 where s: "synthesize_async env response w1 = (r, w2)"
      by (cases "synthesize_async env response w1")
    have "extends within_turn w1 w2"
      using synthesize_trace [OF s] by (rule extendsI) simp
    with e1 have e2: "extends within_turn w w2"
      by (rule extends_trans)
    show ?thesis
    proof (cases "\<exists>p. r = Some p \<and> p \<noteq> [] \<and> p \<in> files w2")
      case False
      with \<open>process_connected env\<close> g s \<open>\<not> (response = [] \<or> starts_with_bracket response)\<close> e2
      show ?thesis
        by (auto simp: process_voice_message_def split: option.splits)
    next
      case True
      then obtain p where p: "r = Some p" "p \<noteq> []" "p \<in> files w2" by blast
      let ?res = "playback h env response p w2"
      have e3: "extends within_turn w (case ?res of Inl (err, w') \<Rightarrow> w' | Inr w' \<Rightarrow> w')"
        using e2 playback_extends by (rule extends_trans)
      show ?thesis
      proof (cases ?res)
        case (Inr w3)
        with e3 \<open>process_connected env\<close> g s p \<open>\<not> (response = [] \<or> starts_with_bracket response)\<close>
        show ?thesis by (simp add: process_voice_message_def)
      next
        case (Inl ew)
        obtain err w3 where ew: "ew = (err, w3)" by (cases ew)
        with Inl e3 have "extends within_turn w w3" by simp
        then have "extends within_turn w (playback_error_cleanup p w3)"
          using playback_error_cleanup_extends by (rule extends_trans)
        with Inl ew \<open>process_connected env\<close> g s p \<open>\<not> (response = [] \<or> starts_with_bracket response)\<close>
        show ?thesis by (simp add: process_voice_message_def)
      qed
    qed
  qed
qed

lemma run_turn_extends: "extends within_turn w (run_turn h env t w)"
proof -
  let ?w1 = "advance (stt_latency env) (emit (Transcribe (audio t)) w)"
  have e1: "extends within_turn w ?w1"
    by (rule extendsI [where es = "[Transcribe (audio t)]"]) simp_all
  show ?thesis
  proof (cases "stt_result env")
    case (Inl err)
    with e1 show ?thesis
      by (simp add: run_turn_def Let_def extends_sleep extends_emit)
  next
    case (Inr user_message)
    let ?w2 = "if has_log_channel h
               then emit (LogSend (''**'' @ username t @ '' (Voice):** '' @ user_message)) ?w1
               else ?w1"
    have e2: "extends within_turn w ?w2"
      using e1 by (simp add: extends_emit)
    have "extends within_turn w (snd (process_voice_message h env user_message ?w2))"
      using e2 process_voice_message_extends by (rule extends_trans)
    then have "extends within_turn w (sleep 0 (snd (process_voice_message h env user_message ?w2)))"
      by (simp add: extends_sleep)
    with Inr e1 show ?thesis
      by (simp add: run_turn_def Let_def extends_sleep)
  qed
qed

section \<open>The shape of the events of the loop\<close>

lemma sequential_append:
  "sequential b (xs @ ys) = (sequential b xs \<and> sequential (busy_after b xs) ys)"
  by (induction b xs rule: sequential.induct) simp_all

lemma busy_after_append: "busy_after b (xs @ ys) = busy_after (busy_after b xs) ys"
  by (induction b xs rule: busy_after.induct) simp_all

lemma within_turn_sequential:
  "list_all within_turn ms \<Longrightarrow> sequential b ms \<and> busy_after b ms = b"
proof (induction ms arbitrary: b)
  case Nil
  show ?case by simp
next
  case (Cons e ms)
  then show ?case by (cases e) simp_all
qed

lemma extract_turn_cases:
  "extract_turn env w = (None, w) \<or>
   (\<exists>t. extract_turn env w =
      (Some t, emit SinkReset (w\<lparr>sink := (sink_cleanup (sink w))\<lparr>audio_data := []\<rparr>\<rparr>)))"
  by (auto simp: extract_turn_def split: list.splits option.splits)

lemma record_audio_trace:
  "record_audio_from_channel env duration w = (r, w1) \<Longrightarrow>
   trace w1 = trace w @ (if record_connected env then [Listen] else [])
                      @ (if r = None then [] else [SinkReset])"
proof (cases "record_connected env")
  case False
  assume "record_audio_from_channel env duration w = (r, w1)"
  with False show ?thesis by (auto simp: record_audio_from_channel_def)
next
  case True
  assume r: "record_audio_from_channel env duration w = (r, w1)"
  obtain outcome seen w2 where
    ws: "wait_for_silence duration (clock w) (last_packet_time (sink w)) (emit Listen w)
           = (outcome, seen, w2)"
    by (metis prod_cases3)
  have t2: "trace w2 = trace w @ [Listen]"
    using wait_for_silence_trace
      [of duration "clock w" "last_packet_time (sink w)" "emit Listen w"] ws
    by simp
  show ?thesis
  proof (cases outcome)
    case Ceiling
    with True r ws t2 show ?thesis
      by (auto simp: record_audio_from_channel_def)
  next
    case Silence
    with True r ws have e: "extract_turn env w2 = (r, w1)"
      by (simp add: record_audio_from_channel_def)
    from extract_turn_cases [of env w2] e t2 show ?thesis
      by (auto simp: True)
  qed
qed

text \<open>The events of one pass of the loop body have one of three shapes.\<close>

lemma iteration_events:
  "\<exists>es. trace (voice_loop_iteration h env w) = trace w @ es \<and>
     (if record_connected env
      then es = [Listen, Sleep (1/2)] \<or>
           (\<exists>ms. es = [Listen, SinkReset, TurnExtracted] @ ms @ [TurnDone] \<and> list_all within_turn ms)
      else es = [Sleep (1/2)])"
proof -
  obtain r w1 where r: "record_audio_from_channel env default_duration w = (r, w1)"
    by (cases "record_audio_from_channel env default_duration w")
  note t1 = record_audio_trace [OF r]
  show ?thesis
  proof (cases r)
    case None
    with r t1 show ?thesis
      by (simp add: voice_loop_iteration_def)
  next
    case (Some t)
    have c: "record_connected env"
    proof (rule ccontr)
      assume "\<not> record_connected env"
      with r Some show False by (simp add: record_audio_from_channel_def)
    qed
    let ?w2 = "emit TurnExtracted w1"
    have "extends within_turn ?w2 (run_turn h env t ?w2)" by (rule run_turn_extends)
    then obtain ms where ms: "trace (run_turn h env t ?w2) = trace ?w2 @ ms" "list_all within_turn ms"
      using extendsD by blast
    from r Some have "voice_loop_iteration h env w = emit TurnDone (run_turn h env t ?w2)"
      by (simp add: voice_loop_iteration_def)
    with ms t1 Some c
    have "trace (voice_loop_iteration h env w)
            = trace w @ ([Listen, SinkReset, TurnExtracted] @ ms @ [TurnDone])"
      by simp
    with ms(2) c show ?thesis by auto
  qed
qed

lemma iteration_sequential:
  assumes "sequential False (trace w)" and "\<not> busy_after False (trace w)"
  shows "sequential False (trace (voice_loop_iteration h env w))
         \<and> \<not> busy_after False (trace (voice_loop_iteration h env w))"
proof -
  obtain es where es: "trace (voice_loop_iteration h env w) = trace w @ es"
    and shape: "es = [Sleep (1/2)] \<or> es = [Listen, Sleep (1/2)] \<or>
       (\<exists>ms. es = [Listen, SinkReset, TurnExtracted] @ ms @ [TurnDone] \<and> list_all within_turn ms)"
    using iteration_events [of h env w] by (auto split: if_splits)
  have "sequential False es \<and> \<not> busy_after False es"
    using shape
    by (auto simp: sequential_append busy_after_append within_turn_sequential)
  with assms es show ?thesis
    by (simp add: sequential_append busy_after_append)
qed

lemma voice_loop_sequential:
  "sequential False (trace w) \<Longrightarrow> \<not> busy_after False (trace w) \<Longrightarrow>
   sequential False (trace (voice_loop h envs w))"
proof (induction envs arbitrary: w)
  case Nil
  then show ?case by simp
next
  case (Cons env envs)
  show ?case
  proof (cases "loop_connected env")
    case True
    with Cons.IH [of "voice_loop_iteration h env w"] iteration_sequential [OF Cons.prems]
    show ?thesis by simp
  next
    case False
    with Cons.prems show ?thesis
      by (simp add: stop_session_def sequential_append)
  qed
qed

section \<open>One running task for each guild\<close>

lemma registered_initial: "registered initial_state"
  by (simp add: registered_def initial_state_def)

lemma join_voice_channel_loops:
  "voice_loops (snd (join_voice_channel env g s)) = voice_loops s
   \<and> tasks (snd (join_voice_channel env g s)) = tasks s"
  by (simp add: join_voice_channel_def split: option.splits)

lemma registered_cong:
  "voice_loops s' = voice_loops s \<Longrightarrow> tasks s' = tasks s \<Longrightarrow> registered s' = registered s"
  by (simp add: registered_def)

lemma registered_start:
  assumes "registered s"
  shows "registered (start_voice_loop g s)"
proof (cases "voice_loops s g = None")
  case False
  then have "start_voice_loop g s = s" by (auto simp: start_voice_loop_def)
  with assms show ?thesis by simp
next
  case True
  let ?s' = "start_voice_loop g s"
  have tasks': "tasks ?s' = tasks s @ [\<lparr>task_guild = g, task_status = Running\<rparr>]"
    and loops': "voice_loops ?s' = (voice_loops s)(g \<mapsto> length (tasks s))"
    using True by (simp_all add: start_voice_loop_def)
  show ?thesis
    unfolding registered_def
  proof (intro allI impI)
    fix t
    assume t: "t < length (tasks ?s')" and run: "task_status (tasks ?s' ! t) = Running"
    show "voice_loops ?s' (task_guild (tasks ?s' ! t)) = Some t"
    proof (cases "t < length (tasks s)")
      case False
      with t have "t = length (tasks s)" by (simp add: tasks')
      then show ?thesis by (simp add: tasks' loops')
    next
      case less: True
      then have same: "tasks ?s' ! t = tasks s ! t" by (simp add: tasks' nth_append)
      with run less assms have old: "voice_loops s (task_guild (tasks s ! t)) = Some t"
        by (simp add: registered_def)
      with True have "task_guild (tasks s ! t) \<noteq> g" by auto
      with old same show ?thesis by (simp add: loops')
    qed
  qed
qed

lemma registered_join: "registered s \<Longrightarrow> registered (join_voice env g s)"
proof -
  assume r: "registered s"
  obtain ok s1 where j: "join_voice_channel env g s = (ok, s1)"
    by (cases "join_voice_channel env g s")
  from join_voice_channel_loops [of env g s] j
  have "voice_loops s1 = voice_loops s" "tasks s1 = tasks s" by simp_all
  then have "registered s1 = registered s" by (rule registered_cong)
  with r have r1: "registered s1" by simp
  with r j show ?thesis
    by (cases ok) (simp_all add: join_voice_def registered_start)
qed

lemma leave_voice_channel_loops:
  "voice_loops (snd (leave_voice_channel raises g s)) = voice_loops s
   \<and> tasks (snd (leave_voice_channel raises g s)) = tasks s"
  by (simp add: leave_voice_channel_def split: option.splits)

lemma registered_leave: "registered s \<Longrightarrow> registered (leave_voice raises g s)"
proof -
  assume r: "registered s"
  let ?s1 = "case voice_loops s g of
               None \<Rightarrow> s
             | Some t \<Rightarrow> (cancel_task t s)\<lparr>voice_loops := (voice_loops s)(g := None)\<rparr>"
  have "registered ?s1"
  proof (cases "voice_loops s g")
    case None
    with r show ?thesis by simp
  next
    case (Some t)
    let ?s' = "(cancel_task t s)\<lparr>voice_loops := (voice_loops s)(g := None)\<rparr>"
    have len: "length (tasks ?s') = length (tasks s)"
      by (simp add: cancel_task_def)
    have "registered ?s'"
      unfolding registered_def
    proof (intro allI impI)
      fix u
      assume u: "u < length (tasks ?s')" and run: "task_status (tasks ?s' ! u) = Running"
      from u len have u': "u < length (tasks s)" by simp
      have ne: "u \<noteq> t"
      proof
        assume "u = t"
        with run u' show False
          by (simp add: cancel_task_def split: if_splits)
      qed
      then have same: "tasks ?s' ! u = tasks s ! u"
        by (simp add: cancel_task_def)
      with run u' r have old: "voice_loops s (task_guild (tasks s ! u)) = Some u"
        by (simp add: registered_def)
      with Some ne have "task_guild (tasks s ! u) \<noteq> g" by auto
      with old same show "voice_loops ?s' (task_guild (tasks ?s' ! u)) = Some u" by simp
    qed
    with Some show ?thesis by simp
  qed
  moreover have "registered (snd (leave_voice_channel raises g ?s1)) = registered ?s1"
    using leave_voice_channel_loops [of raises g ?s1] by (intro registered_cong) simp_all
  ultimately show ?thesis
    by (simp add: leave_voice_def Let_def)
qed

lemma registered_returns:
  assumes "registered s"
  shows "registered (task_returns t s)"
  unfolding registered_def
proof (intro allI impI)
  fix u
  assume u: "u < length (tasks (task_returns t s))"
    and run: "task_status (tasks (task_returns t s) ! u) = Running"
  from u have u': "u < length (tasks s)"
    by (simp add: task_returns_def split: if_splits)
  have same: "tasks (task_returns t s) ! u = tasks s ! u"
  proof (cases "u = t")
    case True
    with run u' show ?thesis by (simp add: task_returns_def split: if_splits)
  next
    case False
    then show ?thesis by (simp add: task_returns_def)
  qed
  with run u' assms have "voice_loops s (task_guild (tasks s ! u)) = Some u"
    by (simp add: registered_def)
  with same show "voice_loops (task_returns t s) (task_guild (tasks (task_returns t s) ! u)) = Some u"
    by (simp add: task_returns_def)
qed

lemma registered_step: "registered s \<Longrightarrow> registered (step c s)"
  by (cases c) (simp_all add: registered_join registered_leave registered_returns)

lemma registered_run: "registered s \<Longrightarrow> registered (run cs s)"
  by (induction cs arbitrary: s) (simp_all add: registered_step)

lemma registered_one_running:
  assumes "registered s"
  shows "length (running_tasks s g) \<le> 1"
proof -
  have d: "distinct (running_tasks s g)"
    by (simp add: running_tasks_def)
  have m: "\<And>t. t \<in> set (running_tasks s g) \<Longrightarrow> voice_loops s g = Some t"
    using assms by (auto simp: running_tasks_def registered_def)
  have sub: "set (running_tasks s g) \<subseteq> set_option (voice_loops s g)"
  proof
    fix t
    assume "t \<in> set (running_tasks s g)"
    then have "voice_loops s g = Some t" by (rule m)
    then show "t \<in> set_option (voice_loops s g)" by simp
  qed
  have fin: "finite (set_option (voice_loops s g))"
    by (cases "voice_loops s g") simp_all
  have "card (set (running_tasks s g)) \<le> card (set_option (voice_loops s g))"
    using sub fin by (rule card_mono [rotated])
  also have "\<dots> \<le> 1"
    by (cases "voice_loops s g") simp_all
  finally show ?thesis using d by (simp add: distinct_card)
qed

section \<open>Sessions and joins\<close>

text \<open>
  C1: for every guild at most one task runs the voice loop at any time, whatever joins,
  leaves and task ends have happened, so at most one pipeline run is in progress for the
  guild; and within a session the turns are sequential: in the events of the loop a
  listening phase never begins, and no turn is extracted, between the entry of a turn's
  pipeline run and its exit (which comes after the wait for the playback).
\<close>

theorem one_pipeline_per_guild_sequential_turns:
  "length (running_tasks (run cmds initial_state) guild_id) \<le> 1
   \<and> (trace w = [] \<longrightarrow> sequential False (trace (full_voice_loop h envs w)))"
proof
  show "length (running_tasks (run cmds initial_state) guild_id) \<le> 1"
    by (intro registered_one_running registered_run registered_initial)
  show "trace w = [] \<longrightarrow> sequential False (trace (full_voice_loop h envs w))"
  proof
    assume e: "trace w = []"
    let ?w = "w\<lparr>sink := \<lparr>audio_data = [], last_packet_time = clock w\<rparr>\<rparr>"
    from e have "sequential False (trace ?w)" "\<not> busy_after False (trace ?w)" by simp_all
    then have "sequential False (trace (voice_loop h envs ?w))"
      by (rule voice_loop_sequential)
    with e show "sequential False (trace (full_voice_loop h envs w))"
      by (cases envs) (simp_all add: full_voice_loop_def del: voice_loop.simps)
  qed
qed

theorem one_pipeline_per_guild_sequential_turns_witness:
  "length (running_tasks
     (run [JoinVoice (good_join 1) 5, JoinVoice (good_join 2) 5, LeaveVoice False 5,
           JoinVoice (good_join 3) 5] initial_state) 5) \<le> 1
   \<and> trace example_world = []
   \<and> sequential False (trace (full_voice_loop example_config [example_env, example_env] example_world))"
proof -
  have t: "trace example_world = []" by (simp add: example_world_def)
  with one_pipeline_per_guild_sequential_turns
         [of "[JoinVoice (good_join 1) 5, JoinVoice (good_join 2) 5, LeaveVoice False 5,
               JoinVoice (good_join 3) 5]" 5 example_world example_config
             "[example_env, example_env]"]
  show ?thesis by simp
qed

text \<open>
  C9: a join that fails (the user is in no voice channel, disconnecting the old client
  raises, or connecting raises) gives \<^verbatim>\<open>False\<close> to the caller, leaves
  \<^verbatim>\<open>voice_clients\<close> as it was, and \<^verbatim>\<open>join_voice\<close> then starts no task and leaves
  \<^verbatim>\<open>voice_loops\<close> as it was.
\<close>

theorem failed_join_leaves_no_session:
  assumes "\<not> in_voice_channel env
           \<or> (voice_clients s guild_id \<noteq> None \<and> disconnect_raises env)
           \<or> connect_result env = None"
  shows "fst (join_voice_channel env guild_id s) = False
       \<and> voice_clients (snd (join_voice_channel env guild_id s)) = voice_clients s
       \<and> voice_clients (join_voice env guild_id s) = voice_clients s
       \<and> voice_loops (join_voice env guild_id s) = voice_loops s
       \<and> tasks (join_voice env guild_id s) = tasks s"
proof -
  have a: "fst (join_voice_channel env guild_id s) = False"
    and b: "voice_clients (snd (join_voice_channel env guild_id s)) = voice_clients s"
    using assms by (auto simp: join_voice_channel_def split: option.splits)
  obtain ok s1 where j: "join_voice_channel env guild_id s = (ok, s1)"
    by (cases "join_voice_channel env guild_id s")
  with a b have ok: "\<not> ok" and c: "voice_clients s1 = voice_clients s" by simp_all
  from join_voice_channel_loops [of env guild_id s] j
  have d: "voice_loops s1 = voice_loops s" "tasks s1 = tasks s" by simp_all
  have "join_voice env guild_id s = s \<or> join_voice env guild_id s = s1"
    using j ok by (simp add: join_voice_def)
  with a b c d show ?thesis by auto
qed

theorem failed_join_leaves_no_session_witness:
  "connect_result failing_join = None
   \<and> fst (join_voice_channel failing_join 5 (run [JoinVoice (good_join 1) 5] initial_state)) = False
   \<and> voice_clients (join_voice failing_join 5 (run [JoinVoice (good_join 1) 5] initial_state))
       = voice_clients (run [JoinVoice (good_join 1) 5] initial_state)
   \<and> voice_loops (join_voice failing_join 5 (run [JoinVoice (good_join 1) 5] initial_state))
       = voice_loops (run [JoinVoice (good_join 1) 5] initial_state)
   \<and> tasks (join_voice failing_join 5 (run [JoinVoice (good_join 1) 5] initial_state))
       = tasks (run [JoinVoice (good_join 1) 5] initial_state)"
proof -
  have h: "connect_result failing_join = None" by (simp add: failing_join_def)
  then have "\<not> in_voice_channel failing_join
      \<or> (voice_clients (run [JoinVoice (good_join 1) 5] initial_state) 5 \<noteq> None
          \<and> disconnect_raises failing_join)
      \<or> connect_result failing_join = None" by simp
  from failed_join_leaves_no_session [OF this] h show ?thesis by simp
qed

section \<open>The language-model call\<close>

lemma new_events_append [simp]: "trace w' = trace w @ es \<Longrightarrow> new_events w w' = es"
  by (simp add: new_events_def)

lemma retry_pause_trace:
  "trace (retry_pause cfg attempt w) =
     trace w @ (if int attempt < retry_attempts cfg - 1 then [Sleep (retry_delay cfg)] else [])"
  by (simp add: retry_pause_def)

lemma llm_attempts_failure_step:
  assumes "int attempt < retry_attempts cfg" and "\<not> is_reply (outcome attempt)"
  shows "llm_attempts cfg outcome latency attempt w =
         llm_attempts cfg outcome latency (Suc attempt)
           (retry_pause cfg attempt (advance latency (emit (LLMPost attempt) w)))"
  using assms
  by (subst llm_attempts.simps) (cases "outcome attempt"; simp)

lemma llm_attempts_posts:
  "posts (trace (snd (llm_attempts cfg outcome latency attempt w)))
     \<le> posts (trace w) + nat (retry_attempts cfg - int attempt)"
proof (induction "nat (retry_attempts cfg - int attempt)" arbitrary: attempt w)
  case 0
  then have "\<not> int attempt < retry_attempts cfg" by simp
  then show ?case by (subst llm_attempts.simps) simp
next
  case (Suc n)
  then have lt: "int attempt < retry_attempts cfg" by linarith
  let ?w1 = "advance latency (emit (LLMPost attempt) w)"
  let ?w2 = "retry_pause cfg attempt ?w1"
  have p1: "posts (trace ?w1) = posts (trace w) + 1" by (simp add: posts_def)
  have p2: "posts (trace ?w2) = posts (trace w) + 1"
    by (simp add: retry_pause_trace posts_def)
  have n: "n = nat (retry_attempts cfg - int (Suc attempt))" using Suc.hyps(2) by simp
  show ?case
  proof (cases "is_reply (outcome attempt)")
    case True
    then obtain content where "outcome attempt = Reply content"
      by (cases "outcome attempt") simp_all
    with lt p1 show ?thesis by (subst llm_attempts.simps) simp
  next
    case False
    from Suc.hyps(1) [OF n, of ?w2] p2 Suc.hyps(2)
    show ?thesis
      by (simp add: llm_attempts_failure_step [where attempt = attempt and cfg = cfg and outcome = outcome, OF lt False])
  qed
qed

lemma llm_attempts_exhausted:
  "(\<And>k. attempt \<le> k \<Longrightarrow> int k < retry_attempts cfg \<Longrightarrow> \<not> is_reply (outcome k)) \<Longrightarrow>
   fst (llm_attempts cfg outcome latency attempt w) = llm_unavailable
   \<and> trace (snd (llm_attempts cfg outcome latency attempt w))
       = trace w @ exhausted_events cfg attempt"
proof (induction "nat (retry_attempts cfg - int attempt)" arbitrary: attempt w)
  case 0
  then have ge: "\<not> int attempt < retry_attempts cfg" by simp
  then have "[attempt ..< nat (retry_attempts cfg)] = []" by simp
  with ge show ?case
    by (subst (1 2) llm_attempts.simps) (simp add: exhausted_events_def)
next
  case (Suc n)
  then have lt: "int attempt < retry_attempts cfg" by linarith
  then have lt': "attempt < nat (retry_attempts cfg)" by simp
  let ?w2 = "retry_pause cfg attempt (advance latency (emit (LLMPost attempt) w))"
  have fail: "\<not> is_reply (outcome attempt)" using Suc.prems lt by simp
  have n: "n = nat (retry_attempts cfg - int (Suc attempt))" using Suc.hyps(2) by simp
  have ih: "fst (llm_attempts cfg outcome latency (Suc attempt) ?w2) = llm_unavailable
      \<and> trace (snd (llm_attempts cfg outcome latency (Suc attempt) ?w2))
          = trace ?w2 @ exhausted_events cfg (Suc attempt)"
    using Suc.hyps(1) [OF n, of ?w2] Suc.prems by simp
  have ev: "exhausted_events cfg attempt =
      LLMPost attempt # (if int attempt < retry_attempts cfg - 1 then [Sleep (retry_delay cfg)] else [])
        @ exhausted_events cfg (Suc attempt)"
    by (simp add: exhausted_events_def upt_conv_Cons [OF lt'])
  show ?case
    using ih by (simp add: llm_attempts_failure_step [where attempt = attempt and cfg = cfg and outcome = outcome, OF lt fail] retry_pause_trace ev)
qed

text \<open>
  C6: the call makes at most \<^verbatim>\<open>retry_attempts\<close> POSTs; when every attempt fails (a
  status other than 200, an unreadable body, a timeout or a transport error) it makes
  exactly that many, with the fixed delay after each but the last, and returns the text
  "[LM Studio unavailable]" instead of raising; and a reply that is empty or begins with
  "[" ends \<^verbatim>\<open>process_voice_message\<close> with \<^verbatim>\<open>False\<close> before synthesis and playback.
\<close>

theorem llm_retries_bounded_then_unavailable_aborts:
  assumes "generate_response_async (llm h) (llm_outcome env) (llm_latency env) w = (response, w1)"
  shows "posts (new_events w w1) \<le> nat (retry_attempts (llm h))
       \<and> ((\<forall>k. int k < retry_attempts (llm h) \<longrightarrow> \<not> is_reply (llm_outcome env k)) \<longrightarrow>
            response = llm_unavailable \<and> new_events w w1 = exhausted_events (llm h) 0)
       \<and> (process_connected env \<and> (response = [] \<or> starts_with_bracket response) \<longrightarrow>
            process_voice_message h env user_message w = (False, w1)
            \<and> list_all (\<lambda>e. \<not> speech_event e) (new_events w w1))"
proof -
  let ?r = "llm_attempts (llm h) (llm_outcome env) (llm_latency env) 0 w"
  from assms have r: "?r = (response, w1)" by (simp add: generate_response_async_def)
  have ext: "extends llm_event w w1"
    using assms by (rule generate_response_extends)
  then obtain es where es: "trace w1 = trace w @ es" "list_all llm_event es"
    using extendsD by blast
  have "posts (trace w1) \<le> posts (trace w) + nat (retry_attempts (llm h))"
    using llm_attempts_posts [of "llm h" "llm_outcome env" "llm_latency env" 0 w] r by simp
  with es have a: "posts (new_events w w1) \<le> nat (retry_attempts (llm h))"
    by (simp add: posts_def)
  have b: "(\<forall>k. int k < retry_attempts (llm h) \<longrightarrow> \<not> is_reply (llm_outcome env k)) \<longrightarrow>
            response = llm_unavailable \<and> new_events w w1 = exhausted_events (llm h) 0"
  proof
    assume "\<forall>k. int k < retry_attempts (llm h) \<longrightarrow> \<not> is_reply (llm_outcome env k)"
    then have "fst ?r = llm_unavailable \<and> trace (snd ?r) = trace w @ exhausted_events (llm h) 0"
      by (intro llm_attempts_exhausted) simp
    with r show "response = llm_unavailable \<and> new_events w w1 = exhausted_events (llm h) 0"
      by simp
  qed
  have "list_all (\<lambda>e. \<not> speech_event e) es"
    using es(2) unfolding list_all_iff
  proof (intro ballI)
    fix e
    assume "\<forall>x\<in>set es. llm_event x" and "e \<in> set es"
    then have "llm_event e" by blast
    then show "\<not> speech_event e" by (cases e) simp_all
  qed
  with es have c1: "list_all (\<lambda>e. \<not> speech_event e) (new_events w w1)" by simp
  have c: "process_connected env \<and> (response = [] \<or> starts_with_bracket response) \<longrightarrow>
            process_voice_message h env user_message w = (False, w1)
            \<and> list_all (\<lambda>e. \<not> speech_event e) (new_events w w1)"
    using assms c1 by (auto simp: process_voice_message_def)
  from a b c show ?thesis by blast
qed

theorem llm_retries_bounded_then_unavailable_aborts_witness:
  "retry_attempts (llm example_config) = 3
   \<and> list_all (\<lambda>k. \<not> is_reply (llm_outcome unreachable_llm_env k)) [0, 1, 2]
   \<and> process_connected unreachable_llm_env
   \<and> fst (generate_response_async (llm example_config) (llm_outcome unreachable_llm_env)
            (llm_latency unreachable_llm_env) example_world) = llm_unavailable
   \<and> starts_with_bracket llm_unavailable
   \<and> new_events example_world
        (snd (generate_response_async (llm example_config) (llm_outcome unreachable_llm_env)
               (llm_latency unreachable_llm_env) example_world))
        = [LLMPost 0, Sleep 1, LLMPost 1, Sleep 1, LLMPost 2]
   \<and> process_voice_message example_config unreachable_llm_env ''hello there'' example_world
        = (False, snd (generate_response_async (llm example_config) (llm_outcome unreachable_llm_env)
                         (llm_latency unreachable_llm_env) example_world))"
proof -
  let ?g = "generate_response_async (llm example_config) (llm_outcome unreachable_llm_env)
              (llm_latency unreachable_llm_env) example_world"
  have fail: "\<forall>k. int k < retry_attempts (llm example_config)
                \<longrightarrow> \<not> is_reply (llm_outcome unreachable_llm_env k)"
    by (simp add: unreachable_llm_env_def)
  have conn: "process_connected unreachable_llm_env"
    by (simp add: unreachable_llm_env_def example_env_def)
  have br: "starts_with_bracket llm_unavailable"
    by (simp add: llm_unavailable_def)
  have ev: "exhausted_events (llm example_config) 0 = [LLMPost 0, Sleep 1, LLMPost 1, Sleep 1, LLMPost 2]"
    by (simp add: exhausted_events_def example_config_def eval_nat_numeral)
  have g: "?g = (fst ?g, snd ?g)" by simp
  have n: "retry_attempts (llm example_config) = 3" by (simp add: example_config_def)
  have each: "list_all (\<lambda>k. \<not> is_reply (llm_outcome unreachable_llm_env k)) [0, 1, 2]"
    by (simp add: unreachable_llm_env_def)
  from llm_retries_bounded_then_unavailable_aborts
         [OF g, where user_message = "''hello there''"] fail conn br ev
  have "fst ?g = llm_unavailable
      \<and> new_events example_world (snd ?g) = [LLMPost 0, Sleep 1, LLMPost 1, Sleep 1, LLMPost 2]
      \<and> process_voice_message example_config unreachable_llm_env ''hello there'' example_world
           = (False, snd ?g)"
    by auto
  with n each conn br show ?thesis by simp
qed

section \<open>Discarded turns and failed turns\<close>






lemma within_turn_not_listen: "list_all within_turn ms \<Longrightarrow> listens ms = 0"
  unfolding listens_def list_all_iff by (auto simp: filter_empty_conv)

lemma iteration_listens:
  "record_connected env \<Longrightarrow>
   listens (trace (voice_loop_iteration h env w)) = listens (trace w) + 1"
proof -
  assume c: "record_connected env"
  obtain es where es: "trace (voice_loop_iteration h env w) = trace w @ es"
    and shape: "es = [Listen, Sleep (1/2)] \<or>
       (\<exists>ms. es = [Listen, SinkReset, TurnExtracted] @ ms @ [TurnDone] \<and> list_all within_turn ms)"
    using iteration_events [of h env w] c by auto
  from shape have "listens es = 1"
  proof
    assume "es = [Listen, Sleep (1/2)]"
    then show ?thesis by (simp add: listens_def)
  next
    assume "\<exists>ms. es = [Listen, SinkReset, TurnExtracted] @ ms @ [TurnDone] \<and> list_all within_turn ms"
    then obtain ms where ms: "es = [Listen, SinkReset, TurnExtracted] @ ms @ [TurnDone]"
      "list_all within_turn ms" by blast
    from within_turn_not_listen [OF ms(2)] ms(1) show ?thesis
      by (simp add: listens_def)
  qed
  with es show ?thesis by (simp add: listens_def)
qed

lemma voice_loop_listens:
  "(\<forall>e \<in> set envs. loop_connected e \<and> record_connected e) \<Longrightarrow>
   listens (trace (voice_loop h envs w)) = listens (trace w) + length envs"
proof (induction envs arbitrary: w)
  case Nil
  show ?case by simp
next
  case (Cons env envs)
  from Cons.prems have c: "loop_connected env" "record_connected env"
    and rest: "\<forall>e \<in> set envs. loop_connected e \<and> record_connected e"
    by simp_all
  let ?w1 = "voice_loop_iteration h env w"
  have "voice_loop h (env # envs) w = voice_loop h envs ?w1"
    using c(1) by simp
  moreover have "listens (trace (voice_loop h envs ?w1)) = listens (trace ?w1) + length envs"
    using rest by (rule Cons.IH)
  moreover have "listens (trace ?w1) = listens (trace w) + 1"
    using c(2) by (rule iteration_listens)
  ultimately show ?case by simp
qed

text \<open>
  C7: when the synthesizer returns no path, \<^verbatim>\<open>process_voice_message\<close> returns
  \<^verbatim>\<open>False\<close> right after the synthesis, having created no audio source and started no
  player; and whatever happens in the turns (the recognizer raises or finds nothing, the
  language model is unavailable, the synthesizer or the player fails), the loop begins a
  new listening phase in every pass as long as the guild is connected.
\<close>

theorem failed_synthesis_skips_playback_loop_goes_on:
  "(process_connected env
      \<and> generate_response_async (llm h) (llm_outcome env) (llm_latency env) w = (response, w1)
      \<and> response \<noteq> [] \<and> \<not> starts_with_bracket response
      \<and> (tts_result env = None \<or> tts_result env = Some [])
    \<longrightarrow> process_voice_message h env user_message w = (False, snd (synthesize_async env response w1))
        \<and> new_events w1 (snd (synthesize_async env response w1)) = [Synthesize response]
        \<and> list_all (\<lambda>e. \<not> play_event e) (new_events w (snd (process_voice_message h env user_message w))))
   \<and> ((\<forall>e \<in> set envs. loop_connected e \<and> record_connected e)
    \<longrightarrow> listens (trace (full_voice_loop h envs w0)) = listens (trace w0) + length envs)"
proof (intro conjI impI)
  assume a: "process_connected env
      \<and> generate_response_async (llm h) (llm_outcome env) (llm_latency env) w = (response, w1)
      \<and> response \<noteq> [] \<and> \<not> starts_with_bracket response
      \<and> (tts_result env = None \<or> tts_result env = Some [])"
  let ?s = "synthesize_async env response w1"
  have fs: "fst ?s = tts_result env" by (simp add: synthesize_async_def Let_def)
  have s: "?s = (fst ?s, snd ?s)" by simp
  show r: "process_voice_message h env user_message w = (False, snd ?s)"
    using a fs by (cases ?s) (auto simp: process_voice_message_def)
  have t2: "trace (snd ?s) = trace w1 @ [Synthesize response]"
    using synthesize_trace [OF s] .
  then show "new_events w1 (snd ?s) = [Synthesize response]"
    by (rule new_events_append)
  from a have "extends llm_event w w1" using generate_response_extends by blast
  then obtain es where es: "trace w1 = trace w @ es" "list_all llm_event es"
    using extendsD by blast
  have "list_all (\<lambda>e. \<not> play_event e) es"
    unfolding list_all_iff
  proof
    fix e
    assume "e \<in> set es"
    with es(2) have "llm_event e" by (simp add: list_all_iff)
    then show "\<not> play_event e" by (cases e) simp_all
  qed
  moreover from es t2 have "trace (snd ?s) = trace w @ (es @ [Synthesize response])" by simp
  then have "new_events w (snd ?s) = es @ [Synthesize response]" by (rule new_events_append)
  ultimately show "list_all (\<lambda>e. \<not> play_event e)
                     (new_events w (snd (process_voice_message h env user_message w)))"
    using r by simp
next
  assume c: "\<forall>e \<in> set envs. loop_connected e \<and> record_connected e"
  let ?w = "w0\<lparr>sink := \<lparr>audio_data = [], last_packet_time = clock w0\<rparr>\<rparr>"
  have "listens (trace (voice_loop h envs ?w)) = listens (trace ?w) + length envs"
    using c by (rule voice_loop_listens)
  with c show "listens (trace (full_voice_loop h envs w0)) = listens (trace w0) + length envs"
    by (cases envs) (simp_all add: full_voice_loop_def del: voice_loop.simps)
qed

lemma example_reply:
  "fst (generate_response_async (llm example_config) (llm_outcome failing_tts_env)
          (llm_latency failing_tts_env) example_world) = ''Hi!''"
  by (simp add: generate_response_async_def llm_attempts.simps example_config_def
        failing_tts_env_def example_env_def py_strip_def is_space_def)

theorem failed_synthesis_skips_playback_loop_goes_on_witness:
  "tts_result failing_tts_env = None
   \<and> process_voice_message example_config failing_tts_env ''hello there'' example_world
       = (False, snd (synthesize_async failing_tts_env ''Hi!''
                        (snd (generate_response_async (llm example_config) (llm_outcome failing_tts_env)
                                (llm_latency failing_tts_env) example_world))))
   \<and> list_all (\<lambda>e. loop_connected e \<and> record_connected e)
         [failing_tts_env, unreachable_llm_env, noise_env]
   \<and> listens (trace (full_voice_loop example_config
                        [failing_tts_env, unreachable_llm_env, noise_env] example_world)) = 3"
proof -
  let ?g = "generate_response_async (llm example_config) (llm_outcome failing_tts_env)
              (llm_latency failing_tts_env) example_world"
  define w1 where "w1 = snd ?g"
  have g: "?g = (''Hi!'', w1)"
    using example_reply unfolding w1_def by (cases ?g) simp
  have c: "process_connected failing_tts_env" "tts_result failing_tts_env = None"
    by (simp_all add: failing_tts_env_def example_env_def)
  have l: "\<forall>e \<in> set [failing_tts_env, unreachable_llm_env, noise_env].
             loop_connected e \<and> record_connected e"
    by (simp add: failing_tts_env_def unreachable_llm_env_def noise_env_def example_env_def)
  have t: "listens (trace example_world) = 0" by (simp add: example_world_def listens_def)
  note T = failed_synthesis_skips_playback_loop_goes_on
         [of failing_tts_env example_config example_world "''Hi!''" w1 "''hello there''"
             "[failing_tts_env, unreachable_llm_env, noise_env]" example_world]
  have p1: "process_connected failing_tts_env
      \<and> generate_response_async (llm example_config) (llm_outcome failing_tts_env)
            (llm_latency failing_tts_env) example_world = (''Hi!'', w1)
      \<and> ''Hi!'' \<noteq> [] \<and> \<not> starts_with_bracket ''Hi!''
      \<and> (tts_result failing_tts_env = None \<or> tts_result failing_tts_env = Some [])"
    using g c by simp
  have r1: "process_voice_message example_config failing_tts_env ''hello there'' example_world
          = (False, snd (synthesize_async failing_tts_env ''Hi!'' w1))"
    using T [THEN conjunct1, THEN mp, OF p1] by (rule conjunct1)
  have "listens (trace (full_voice_loop example_config
                 [failing_tts_env, unreachable_llm_env, noise_env] example_world))
        = listens (trace example_world) + length [failing_tts_env, unreachable_llm_env, noise_env]"
    using T [THEN conjunct2, THEN mp, OF l] .
  with t have r2: "listens (trace (full_voice_loop example_config
                 [failing_tts_env, unreachable_llm_env, noise_env] example_world)) = 3"
    by simp
  from l have l': "list_all (\<lambda>e. loop_connected e \<and> record_connected e)
                     [failing_tts_env, unreachable_llm_env, noise_env]"
    by (simp only: list_all_iff)
  from c(2) r1 l' r2 show ?thesis unfolding w1_def by (intro conjI)
qed

section \<open>Properties of reply splitting\<close>

lemma py_range_concat:
  "0 < n \<Longrightarrow>
   concat (map (\<lambda>i. py_slice text i (i + n)) (py_range i (length text) n)) = drop i text"
proof (induction i "length text" n rule: py_range.induct)
  case (1 i step)
  show ?case
  proof (cases "i < length text")
    case True
    have "drop i text = take step (drop i text) @ drop (i + step) text"
      by (metis add.commute append_take_drop_id drop_drop)
    with True 1 show ?thesis
      by (subst py_range.simps) (simp add: py_slice_def)
  next
    case False
    then show ?thesis
      by (subst py_range.simps) simp
  qed
qed

lemma py_slice_length: "length (py_slice text i (i + n)) \<le> n"
  by (simp add: py_slice_def)

text \<open>
  C10: for every text, the chunks yielded by \<^verbatim>\<open>_chunk_text(text, 1950)\<close> each have at
  most 1950 characters, and their concatenation in order is the text.
\<close>

theorem chunk_text_bounded_and_lossless:
  "\<exists>cs. chunk_text text reply_chunk_size = Inr cs
        \<and> (\<forall>c \<in> set cs. length c \<le> 1950)
        \<and> concat cs = text"
proof -
  let ?cs = "map (\<lambda>i. py_slice text i (i + 1950)) (py_range 0 (length text) 1950)"
  have eq: "chunk_text text reply_chunk_size = Inr ?cs"
    by (simp add: chunk_text_def reply_chunk_size_def)
  have len: "\<forall>c \<in> set ?cs. length c \<le> 1950"
    using py_slice_length [of "text" _ 1950] by auto
  have cat: "concat ?cs = text"
    using py_range_concat [of 1950 "text" 0] by simp
  from eq len cat show ?thesis by blast
qed

theorem chunk_text_bounded_and_lossless_witness:
  "chunk_text ''hello'' reply_chunk_size = Inr [''hello'']
   \<and> list_all (\<lambda>c. length c \<le> 1950) [''hello''] \<and> concat [''hello''] = ''hello''"
proof -
  obtain cs where cs: "chunk_text ''hello'' reply_chunk_size = Inr cs"
    and "\<forall>c \<in> set cs. length c \<le> 1950" and cat: "concat cs = ''hello''"
    using chunk_text_bounded_and_lossless [of "''hello''"] by blast
  have "chunk_text ''hello'' reply_chunk_size = Inr [''hello'']"
    by (simp add: chunk_text_def reply_chunk_size_def py_range.simps py_slice_def)
  then show ?thesis by simp
qed

section \<open>The timing of the wait for silence\<close>










lemmas world_eval =
  wait_for_silence.simps poll_tick_def advance_def deliver_def player_finish_def
  on_playback_done_def os_remove_def emit_def sleep_def sink_write_def

lemma quiet_world_wait:
  "wait_for_silence default_duration (clock quiet_world) (last_packet_time (sink quiet_world))
     (emit Listen quiet_world)
   = (Silence, 0, (emit Listen quiet_world)\<lparr>clock := 3\<rparr>)"
  by (simp add: quiet_world_def default_duration_def world_eval)





section \<open>What a listening phase returns\<close>

lemma chatty_world_wait:
  "wait_for_silence default_duration (clock chatty_world) (last_packet_time (sink chatty_world))
     (emit Listen chatty_world)
   = (Ceiling, 55/2,
      (emit Listen chatty_world)
        \<lparr>clock := 301/10,
         sink := \<lparr>audio_data = [(Some 7, [1, 0, 1, 0, 1, 0, 1, 0, 1, 0, 1, 0,
                                            1, 0, 1, 0, 1, 0, 1, 0, 1, 0, 1, 0])],
                  last_packet_time = 55/2\<rparr>,
         pending := []\<rparr>)"
  apply (simp add: chatty_world_def default_duration_def world_eval)
  apply (simp add: Let_def)
  done

lemma frombuffer_int16_none: "frombuffer_int16 b = None \<longleftrightarrow> odd (length b)"
  by (induction b rule: frombuffer_int16.induct) (auto split: option.splits)

lemma selected_bytes_first: "audio_data s = (u, b) # rest \<Longrightarrow> selected_bytes u s = Some b"
  by (simp add: selected_bytes_def)

lemma extract_turn_first:
  assumes "audio_data (sink w) = (u, b) # rest"
  shows "b = [] \<or> odd (length b) \<Longrightarrow> extract_turn env w = (None, w)"
    and "b \<noteq> [] \<Longrightarrow> frombuffer_int16 b = Some ws \<Longrightarrow>
         extract_turn env w =
           (Some \<lparr>audio = map normalize_sample ws, speaker = u,
                  username = lookup_username (members env) u\<rparr>,
            emit SinkReset (w\<lparr>sink := \<lparr>audio_data = [],
                                        last_packet_time = last_packet_time (sink w)\<rparr>\<rparr>))"
proof -
  have s: "selected_bytes u (sink w) = Some b"
    using assms by (rule selected_bytes_first)
  show "b = [] \<or> odd (length b) \<Longrightarrow> extract_turn env w = (None, w)"
    using assms s frombuffer_int16_none [of b]
    by (auto simp: extract_turn_def get_audio_data_def)
  show "b \<noteq> [] \<Longrightarrow> frombuffer_int16 b = Some ws \<Longrightarrow>
         extract_turn env w =
           (Some \<lparr>audio = map normalize_sample ws, speaker = u,
                  username = lookup_username (members env) u\<rparr>,
            emit SinkReset (w\<lparr>sink := \<lparr>audio_data = [],
                                        last_packet_time = last_packet_time (sink w)\<rparr>\<rparr>))"
    using assms s by (simp add: extract_turn_def get_audio_data_def sink_cleanup_def)
qed

text \<open>
  C3, as the code has it: when the 30-second ceiling ends the wait, the listening phase
  returns no turn and resets nothing, whatever the buffers hold. When silence ends the
  wait, the buffer of the first speaker of the sink is taken: if there is no speaker, or
  that buffer is empty or has an odd number of bytes, the phase returns no turn and resets
  nothing; otherwise it returns the turn made of that buffer's samples and all the buffers
  are reset.
\<close>

theorem ceiling_gives_no_turn_silence_takes_first_buffer:
  assumes "record_connected env"
      and "wait_for_silence d (clock w) (last_packet_time (sink w)) (emit Listen w)
             = (outcome, seen, w1)"
  shows "trace w1 = trace w @ [Listen]
       \<and> (outcome = Ceiling \<longrightarrow> record_audio_from_channel env d w = (None, w1))
       \<and> (outcome = Silence \<and> audio_data (sink w1) = [] \<longrightarrow>
            record_audio_from_channel env d w = (None, w1))
       \<and> (\<forall>u b rest. outcome = Silence \<and> audio_data (sink w1) = (u, b) # rest \<longrightarrow>
            (if b = [] \<or> odd (length b) then record_audio_from_channel env d w = (None, w1)
             else \<exists>ws. frombuffer_int16 b = Some ws
                    \<and> record_audio_from_channel env d w =
                        (Some \<lparr>audio = map normalize_sample ws, speaker = u,
                               username = lookup_username (members env) u\<rparr>,
                         emit SinkReset
                           (w1\<lparr>sink := \<lparr>audio_data = [],
                                          last_packet_time = last_packet_time (sink w1)\<rparr>\<rparr>))))"
proof (intro conjI impI allI)
  show "trace w1 = trace w @ [Listen]"
    using wait_for_silence_trace [of d "clock w" "last_packet_time (sink w)" "emit Listen w"]
      assms(2) by simp
next
  assume "outcome = Ceiling"
  with assms show "record_audio_from_channel env d w = (None, w1)"
    by (simp add: record_audio_from_channel_def)
next
  assume "outcome = Silence \<and> audio_data (sink w1) = []"
  with assms show "record_audio_from_channel env d w = (None, w1)"
    by (simp add: record_audio_from_channel_def extract_turn_def)
next
  fix u b rest
  assume a: "outcome = Silence \<and> audio_data (sink w1) = (u, b) # rest"
  with assms have r: "record_audio_from_channel env d w = extract_turn env w1"
    by (simp add: record_audio_from_channel_def)
  from a have first: "audio_data (sink w1) = (u, b) # rest" by simp
  show "if b = [] \<or> odd (length b) then record_audio_from_channel env d w = (None, w1)
        else \<exists>ws. frombuffer_int16 b = Some ws
               \<and> record_audio_from_channel env d w =
                   (Some \<lparr>audio = map normalize_sample ws, speaker = u,
                          username = lookup_username (members env) u\<rparr>,
                    emit SinkReset
                      (w1\<lparr>sink := \<lparr>audio_data = [],
                                     last_packet_time = last_packet_time (sink w1)\<rparr>\<rparr>))"
  proof (cases "b = [] \<or> odd (length b)")
    case True
    with extract_turn_first(1) [OF first] r show ?thesis by simp
  next
    case False
    then have "frombuffer_int16 b \<noteq> None" by (simp add: frombuffer_int16_none)
    then obtain ws where ws: "frombuffer_int16 b = Some ws" by blast
    from False have "b \<noteq> []" by simp
    from extract_turn_first(2) [OF first this ws] r ws False show ?thesis by simp
  qed
qed

text \<open>
  In the room where somebody speaks all the time the ceiling fires at 30.1 seconds with
  24 bytes buffered for the speaker: the listening phase returns no turn, and the buffer
  is neither snapshot nor reset.
\<close>

theorem ceiling_with_buffered_audio_gives_no_turn:
  "fst (record_audio_from_channel example_env default_duration chatty_world) = None
   \<and> clock (snd (record_audio_from_channel example_env default_duration chatty_world)) = 301/10
   \<and> audio_data (sink (snd (record_audio_from_channel example_env default_duration chatty_world)))
       = [(Some 7, [1, 0, 1, 0, 1, 0, 1, 0, 1, 0, 1, 0, 1, 0, 1, 0, 1, 0, 1, 0, 1, 0, 1, 0])]
   \<and> trace (snd (record_audio_from_channel example_env default_duration chatty_world)) = [Listen]"
  by (simp add: record_audio_from_channel_def chatty_world_wait example_env_def)
    (simp add: emit_def chatty_world_def)

theorem ceiling_gives_no_turn_silence_takes_first_buffer_witness:
  "record_connected example_env
   \<and> record_audio_from_channel example_env default_duration chatty_world
       = (None,
          (emit Listen chatty_world)
            \<lparr>clock := 301/10,
             sink := \<lparr>audio_data = [(Some 7, [1, 0, 1, 0, 1, 0, 1, 0, 1, 0, 1, 0,
                                                1, 0, 1, 0, 1, 0, 1, 0, 1, 0, 1, 0])],
                      last_packet_time = 55/2\<rparr>,
             pending := []\<rparr>)
   \<and> record_audio_from_channel example_env default_duration quiet_world
       = (Some \<lparr>audio = [1/32768], speaker = Some 7, username = ''U''\<rparr>,
          emit SinkReset
            ((emit Listen quiet_world)
               \<lparr>clock := 3, sink := \<lparr>audio_data = [], last_packet_time = 0\<rparr>\<rparr>))"
proof -
  have c: "record_connected example_env" by (simp add: example_env_def)
  note A = ceiling_gives_no_turn_silence_takes_first_buffer [OF c chatty_world_wait]
  note B = ceiling_gives_no_turn_silence_takes_first_buffer [OF c quiet_world_wait]
  have a: "record_audio_from_channel example_env default_duration chatty_world
       = (None,
          (emit Listen chatty_world)
            \<lparr>clock := 301/10,
             sink := \<lparr>audio_data = [(Some 7, [1, 0, 1, 0, 1, 0, 1, 0, 1, 0, 1, 0,
                                                1, 0, 1, 0, 1, 0, 1, 0, 1, 0, 1, 0])],
                      last_packet_time = 55/2\<rparr>,
             pending := []\<rparr>)"
    using A by simp
  have q: "audio_data (sink ((emit Listen quiet_world)\<lparr>clock := 3\<rparr>)) = (Some 7, [1, 0]) # []"
    by (simp add: quiet_world_def emit_def)
  have "Silence = Silence \<and> audio_data (sink ((emit Listen quiet_world)\<lparr>clock := 3\<rparr>))
          = (Some 7, [1, 0]) # []"
    using q by simp
  with B have "\<exists>ws. frombuffer_int16 [1, 0] = Some ws
       \<and> record_audio_from_channel example_env default_duration quiet_world =
           (Some \<lparr>audio = map normalize_sample ws, speaker = Some 7,
                  username = lookup_username (members example_env) (Some 7)\<rparr>,
            emit SinkReset
              (((emit Listen quiet_world)\<lparr>clock := 3\<rparr>)
                 \<lparr>sink := \<lparr>audio_data = [],
                            last_packet_time =
                              last_packet_time (sink ((emit Listen quiet_world)\<lparr>clock := 3\<rparr>))\<rparr>\<rparr>))"
    by (auto simp del: frombuffer_int16.simps)
  then have b: "record_audio_from_channel example_env default_duration quiet_world
       = (Some \<lparr>audio = [1/32768], speaker = Some 7, username = ''U''\<rparr>,
          emit SinkReset
            ((emit Listen quiet_world)
               \<lparr>clock := 3, sink := \<lparr>audio_data = [], last_packet_time = 0\<rparr>\<rparr>))"
    by (auto simp: normalize_sample_def example_env_def quiet_world_def emit_def)
  from c a b show ?thesis by (intro conjI)
qed
section \<open>The temporary file of a reply\<close>











lemma process_voice_message_play:
  assumes "process_connected env"
      and "generate_response_async (llm h) (llm_outcome env) (llm_latency env) w = (response, w1)"
      and "response \<noteq> [] \<and> \<not> starts_with_bracket response"
      and "synthesize_async env response w1 = (Some audio_path, w2)"
      and "audio_path \<noteq> [] \<and> audio_path \<in> files w2"
  shows "process_voice_message h env user_message w =
           (case playback h env response audio_path w2 of
              Inr w3 \<Rightarrow> (True, w3)
            | Inl (err, w3) \<Rightarrow> (False, playback_error_cleanup audio_path w3))"
  using assms by (simp add: process_voice_message_def)







section \<open>The sink during a turn\<close>

lemma deliver_packets_twice:
  "t1 \<le> t2 \<Longrightarrow> deliver_packets t1 ps s = (ps1, s1) \<Longrightarrow>
   deliver_packets t2 ps1 s1 = deliver_packets t2 ps s"
proof (induction ps arbitrary: s)
  case Nil
  then show ?case by simp
next
  case (Cons x ps)
  obtain t u pcm where x: "x = (t, u, pcm)" by (cases x)
  show ?case
  proof (cases "t \<le> t1")
    case True
    with Cons.prems x have "deliver_packets t1 ps (sink_write u pcm t s) = (ps1, s1)" by simp
    from Cons.IH [OF Cons.prems(1) this] True Cons.prems(1) x show ?thesis by simp
  next
    case False
    with Cons.prems x show ?thesis by auto
  qed
qed

lemma arrivals_refl [simp]: "arrivals w w"
  by (simp add: arrivals_def)

lemma arrivals_trans:
  assumes "arrivals w w1" and "arrivals w1 w2"
  shows "arrivals w w2"
proof -
  consider (same1) "clock w1 = clock w" "pending w1 = pending w" "sink w1 = sink w"
    | (same2) "clock w2 = clock w1" "pending w2 = pending w1" "sink w2 = sink w1"
    | (both) "clock w \<le> clock w1"
        "deliver_packets (clock w1) (pending w) (sink w) = (pending w1, sink w1)"
        "clock w1 \<le> clock w2"
        "deliver_packets (clock w2) (pending w1) (sink w1) = (pending w2, sink w2)"
    using assms unfolding arrivals_def by blast
  then show ?thesis
  proof cases
    case same1
    with assms(2) show ?thesis by (simp add: arrivals_def)
  next
    case same2
    with assms(1) show ?thesis by (simp add: arrivals_def)
  next
    case both
    from deliver_packets_twice [OF both(3) both(2)] both(4)
    have "deliver_packets (clock w2) (pending w) (sink w) = (pending w2, sink w2)" by simp
    with both(1,3) show ?thesis by (simp add: arrivals_def)
  qed
qed

lemma arrivals_same:
  "clock w' = clock w \<Longrightarrow> pending w' = pending w \<Longrightarrow> sink w' = sink w \<Longrightarrow> arrivals w w'"
  by (simp add: arrivals_def)

lemma arrivals_advance: "arrivals w (advance d w)"
proof -
  obtain ps s where d: "deliver_packets (clock w + max 0 d) (pending w) (sink w) = (ps, s)"
    by (cases "deliver_packets (clock w + max 0 d) (pending w) (sink w)")
  then have "pending (advance d w) = ps" "sink (advance d w) = s"
    by (simp_all add: advance_def deliver_def)
  with d show ?thesis by (simp add: arrivals_def)
qed

lemma arrivals_emit: "arrivals w (emit e w)"
  by (rule arrivals_same) simp_all

lemma arrivals_sleep: "arrivals w (sleep d w)"
  unfolding sleep_def
  by (rule arrivals_trans [OF arrivals_emit arrivals_advance])

lemma arrivals_then_advance: "arrivals w w1 \<Longrightarrow> arrivals w (advance d w1)"
  by (erule arrivals_trans) (rule arrivals_advance)

lemma arrivals_then_emit: "arrivals w w1 \<Longrightarrow> arrivals w (emit e w1)"
  by (erule arrivals_trans) (rule arrivals_emit)

lemma arrivals_then_sleep: "arrivals w w1 \<Longrightarrow> arrivals w (sleep d w1)"
  by (erule arrivals_trans) (rule arrivals_sleep)

lemma retry_pause_arrivals: "arrivals w (retry_pause cfg attempt w)"
  by (simp add: retry_pause_def arrivals_sleep)

lemma llm_attempts_arrivals:
  "arrivals w (snd (llm_attempts cfg outcome latency attempt w))"
proof (induction cfg outcome latency attempt w rule: llm_attempts.induct)
  case (1 cfg outcome latency attempt w)
  let ?w1 = "advance latency (emit (LLMPost attempt) w)"
  let ?w2 = "retry_pause cfg attempt ?w1"
  have e1: "arrivals w ?w1"
    by (intro arrivals_then_advance arrivals_emit)
  have e2: "arrivals w ?w2"
    using e1 retry_pause_arrivals by (rule arrivals_trans)
  show ?case
  proof (cases "int attempt < retry_attempts cfg")
    case False
    then show ?thesis by (subst llm_attempts.simps) simp
  next
    case True
    show ?thesis
    proof (cases "outcome attempt")
      case (Reply content)
      with True e1 show ?thesis by (subst llm_attempts.simps) simp
    next
      case BadBody
      with True have "arrivals ?w2 (snd (llm_attempts cfg outcome latency (Suc attempt) ?w2))"
        using "1.IH"(1) by simp
      with e2 have "arrivals w (snd (llm_attempts cfg outcome latency (Suc attempt) ?w2))"
        by (rule arrivals_trans)
      with BadBody True show ?thesis
        by (subst llm_attempts.simps) simp
    next
      case (HttpStatus code)
      with True have "arrivals ?w2 (snd (llm_attempts cfg outcome latency (Suc attempt) ?w2))"
        using "1.IH"(2) by simp
      with e2 have "arrivals w (snd (llm_attempts cfg outcome latency (Suc attempt) ?w2))"
        by (rule arrivals_trans)
      with HttpStatus True show ?thesis
        by (subst llm_attempts.simps) simp
    next
      case TimedOut
      with True have "arrivals ?w2 (snd (llm_attempts cfg outcome latency (Suc attempt) ?w2))"
        using "1.IH"(3) by simp
      with e2 have "arrivals w (snd (llm_attempts cfg outcome latency (Suc attempt) ?w2))"
        by (rule arrivals_trans)
      with TimedOut True show ?thesis
        by (subst llm_attempts.simps) simp
    next
      case TransportError
      with True have "arrivals ?w2 (snd (llm_attempts cfg outcome latency (Suc attempt) ?w2))"
        using "1.IH"(4) by simp
      with e2 have "arrivals w (snd (llm_attempts cfg outcome latency (Suc attempt) ?w2))"
        by (rule arrivals_trans)
      with TransportError True show ?thesis
        by (subst llm_attempts.simps) simp
    qed
  qed
qed

lemma play_wait_arrivals: "arrivals w (play_wait waited w)"
proof (induction waited w rule: play_wait.induct)
  case (1 waited w)
  show ?case
  proof (cases "is_playing w \<and> waited < 30")
    case False
    then have "play_wait waited w = w" by (subst play_wait.simps) auto
    then show ?thesis by simp
  next
    case True
    have "arrivals w (poll_tick w)" by (simp add: poll_tick_def arrivals_advance)
    moreover have "arrivals (poll_tick w) (play_wait (waited + 1/10) (poll_tick w))"
      using True by (rule "1.IH")
    ultimately have "arrivals w (play_wait (waited + 1/10) (poll_tick w))"
      by (rule arrivals_trans)
    with True show ?thesis by (subst play_wait.simps) simp
  qed
qed

lemma synthesize_arrivals: "arrivals w (snd (synthesize_async env response w))"
proof -
  let ?w1 = "advance (tts_latency env) (emit (Synthesize response) w)"
  have "arrivals w ?w1" by (intro arrivals_then_advance arrivals_emit)
  moreover have "arrivals ?w1 (?w1\<lparr>files := files ?w1 \<union> tts_files env\<rparr>)"
    by (rule arrivals_same) simp_all
  ultimately show ?thesis
    by (simp add: synthesize_async_def Let_def arrivals_trans)
qed

lemma playback_arrivals:
  "arrivals w (case playback h env response audio_path w of
                 Inl (err, w') \<Rightarrow> w' | Inr w' \<Rightarrow> w')"
proof -
  let ?w1 = "emit (CreateSource audio_path) w"
  let ?w2 = "if has_log_channel h
             then emit (LogSend (''**Merith (Voice):** '' @ response)) ?w1 else ?w1"
  let ?w3 = "emit (Play audio_path) ?w2"
  let ?w4 = "?w3\<lparr>player := Some (audio_path, clock ?w3 + play_duration env)\<rparr>"
  have a1: "arrivals w ?w1" by (rule arrivals_emit)
  have a2: "arrivals w ?w2" using a1 by (simp add: arrivals_then_emit)
  have a3: "arrivals w ?w3" using a2 by (rule arrivals_then_emit)
  have "arrivals ?w3 ?w4" by (rule arrivals_same) simp_all
  with a3 have a4: "arrivals w ?w4" by (rule arrivals_trans)
  have a5: "arrivals w (play_wait 0 ?w4)"
    using a4 play_wait_arrivals by (rule arrivals_trans)
  show ?thesis
  proof (cases "source_raises env")
    case True
    with a1 show ?thesis by (simp add: playback_def Let_def)
  next
    case False
    show ?thesis
    proof (cases "is_playing ?w3 \<or> play_raises env")
      case True
      with False a3 show ?thesis by (simp add: playback_def Let_def)
    next
      case b: False
      have "playback h env response audio_path w = Inr (play_wait 0 ?w4)"
        using False b by (simp add: playback_def Let_def)
      with a5 show ?thesis by simp
    qed
  qed
qed

lemma playback_error_cleanup_arrivals: "arrivals w (playback_error_cleanup audio_path w)"
  by (rule arrivals_same) (simp_all add: playback_error_cleanup_def os_remove_def)

lemma process_voice_message_arrivals:
  "arrivals w (snd (process_voice_message h env user_message w))"
proof (cases "process_connected env")
  case False
  then show ?thesis by (simp add: process_voice_message_def)
next
  case True
  obtain response w1 where g:
    "generate_response_async (llm h) (llm_outcome env) (llm_latency env) w = (response, w1)"
    by (cases "generate_response_async (llm h) (llm_outcome env) (llm_latency env) w")
  have e1: "arrivals w w1"
    using llm_attempts_arrivals [of w "llm h" "llm_outcome env" "llm_latency env" 0] g
    by (simp add: generate_response_async_def)
  show ?thesis
  proof (cases "response = [] \<or> starts_with_bracket response")
    case True
    with \<open>process_connected env\<close> g e1 show ?thesis
      by (simp add: process_voice_message_def)
  next
    case False
    obtain r w2 where s: "synthesize_async env response w1 = (r, w2)"
      by (cases "synthesize_async env response w1")
    have "arrivals w1 w2"
      using synthesize_arrivals [of w1 env response] s by simp
    with e1 have e2: "arrivals w w2"
      by (rule arrivals_trans)
    show ?thesis
    proof (cases "\<exists>p. r = Some p \<and> p \<noteq> [] \<and> p \<in> files w2")
      case False
      with \<open>process_connected env\<close> g s \<open>\<not> (response = [] \<or> starts_with_bracket response)\<close> e2
      show ?thesis
        by (auto simp: process_voice_message_def split: option.splits)
    next
      case True
      then obtain p where p: "r = Some p" "p \<noteq> []" "p \<in> files w2" by blast
      let ?res = "playback h env response p w2"
      have e3: "arrivals w (case ?res of Inl (err, w') \<Rightarrow> w' | Inr w' \<Rightarrow> w')"
        using e2 playback_arrivals by (rule arrivals_trans)
      show ?thesis
      proof (cases ?res)
        case (Inr w3)
        with e3 \<open>process_connected env\<close> g s p \<open>\<not> (response = [] \<or> starts_with_bracket response)\<close>
        show ?thesis by (simp add: process_voice_message_def)
      next
        case (Inl ew)
        obtain err w3 where ew: "ew = (err, w3)" by (cases ew)
        with Inl e3 have "arrivals w w3" by simp
        then have "arrivals w (playback_error_cleanup p w3)"
          using playback_error_cleanup_arrivals by (rule arrivals_trans)
        with Inl ew \<open>process_connected env\<close> g s p \<open>\<not> (response = [] \<or> starts_with_bracket response)\<close>
        show ?thesis by (simp add: process_voice_message_def)
      qed
    qed
  qed
qed

lemma run_turn_arrivals:
  "arrivals (advance (stt_latency env) (emit (Transcribe (audio t)) w)) (run_turn h env t w)"
proof -
  let ?w1 = "advance (stt_latency env) (emit (Transcribe (audio t)) w)"
  show ?thesis
  proof (cases "stt_result env")
    case (Inl err)
    then show ?thesis
      by (simp add: run_turn_def Let_def arrivals_then_sleep arrivals_emit)
  next
    case (Inr user_message)
    let ?w2 = "if has_log_channel h
               then emit (LogSend (''**'' @ username t @ '' (Voice):** '' @ user_message)) ?w1
               else ?w1"
    have e2: "arrivals ?w1 ?w2"
      by (simp add: arrivals_emit)
    have "arrivals ?w1 (snd (process_voice_message h env user_message ?w2))"
      using e2 process_voice_message_arrivals by (rule arrivals_trans)
    then have "arrivals ?w1 (sleep 0 (snd (process_voice_message h env user_message ?w2)))"
      by (rule arrivals_then_sleep)
    with Inr show ?thesis
      by (simp add: run_turn_def Let_def arrivals_sleep)
  qed
qed

lemma run_turn_delivers:
  "clock w \<le> clock (run_turn h env t w)
   \<and> deliver_packets (clock (run_turn h env t w)) (pending w) (sink w)
       = (pending (run_turn h env t w), sink (run_turn h env t w))"
proof -
  let ?w0 = "emit (Transcribe (audio t)) w"
  let ?w1 = "advance (stt_latency env) ?w0"
  let ?w' = "run_turn h env t w"
  obtain ps s where d: "deliver_packets (clock w + max 0 (stt_latency env)) (pending w) (sink w) = (ps, s)"
    by (cases "deliver_packets (clock w + max 0 (stt_latency env)) (pending w) (sink w)")
  then have f: "pending ?w1 = ps" "sink ?w1 = s" "clock ?w1 = clock w + max 0 (stt_latency env)"
    by (simp_all add: advance_def deliver_def)
  have le: "clock w \<le> clock ?w1" by simp
  have a: "arrivals ?w1 ?w'" by (rule run_turn_arrivals)
  then consider (same) "clock ?w' = clock ?w1" "pending ?w' = pending ?w1" "sink ?w' = sink ?w1"
    | (later) "clock ?w1 \<le> clock ?w'"
        "deliver_packets (clock ?w') (pending ?w1) (sink ?w1) = (pending ?w', sink ?w')"
    unfolding arrivals_def by blast
  then show ?thesis
  proof cases
    case same
    with d f show ?thesis by simp
  next
    case later
    have "clock w + max 0 (stt_latency env) \<le> clock ?w'"
      using later(1) f(3) by simp
    from deliver_packets_twice [OF this d] later(2) f(1,2)
    have "deliver_packets (clock ?w') (pending w) (sink w) = (pending ?w', sink ?w')" by simp
    moreover have "clock w \<le> clock ?w'" using le later(1) by linarith
    ultimately show ?thesis by simp
  qed
qed
lemma busy_first_record:
  "record_audio_from_channel slow_env default_duration busy_world
   = (Some example_turn, extracted_world)"
  apply (simp add: record_audio_from_channel_def busy_world_def slow_env_def example_env_def
      default_duration_def world_eval)
  apply (simp add: Let_def extract_turn_def get_audio_data_def selected_bytes_def
      normalize_sample_def sink_cleanup_def example_turn_def extracted_world_def emit_def)
  done

lemma busy_first_heard:
  "emit (LogSend (''**'' @ username example_turn @ '' (Voice):** '' @ ''hello there''))
     (advance (stt_latency slow_env)
        (emit (Transcribe (audio example_turn)) (emit TurnExtracted extracted_world)))
   = heard_world"
  by (simp add: slow_env_def example_env_def example_turn_def extracted_world_def
      heard_world_def world_eval)

lemma busy_first_answer:
  "generate_response_async (llm example_config) (llm_outcome slow_env) (llm_latency slow_env)
     heard_world = (''Hi!'', answered_world)"
  by (simp add: generate_response_async_def llm_attempts.simps example_config_def slow_env_def
      example_env_def heard_world_def answered_world_def py_strip_def is_space_def world_eval)

lemma busy_first_synthesis:
  "synthesize_async slow_env ''Hi!'' answered_world = (Some ''P'', voiced_world)"
  by (simp add: synthesize_async_def slow_env_def example_env_def answered_world_def
      voiced_world_def world_eval)

lemma busy_first_playback:
  "playback example_config slow_env ''Hi!'' ''P'' voiced_world = Inr played_world"
  apply (simp add: playback_def Let_def is_playing_def example_config_def slow_env_def
      example_env_def voiced_world_def emit_def)
  apply (simp add: play_wait.simps is_playing_def played_world_def poll_tick_def advance_def
      deliver_def player_finish_def on_playback_done_def os_remove_def)
  done

lemma busy_first_reply:
  "process_voice_message example_config slow_env ''hello there'' heard_world
   = (True, played_world)"
proof -
  have c: "process_connected slow_env" by (simp add: slow_env_def example_env_def)
  have r: "''Hi!'' \<noteq> [] \<and> \<not> starts_with_bracket ''Hi!''" by simp
  have f: "''P'' \<noteq> [] \<and> ''P'' \<in> files voiced_world" by (simp add: voiced_world_def)
  from process_voice_message_play
         [OF c busy_first_answer r busy_first_synthesis f, of "''hello there''"]
       busy_first_playback
  show ?thesis by simp
qed

lemma busy_first_run:
  "run_turn example_config slow_env example_turn (emit TurnExtracted extracted_world)
   = sleep 0 played_world"
proof -
  have s: "stt_result slow_env = Inr ''hello there''" by (simp add: slow_env_def example_env_def)
  have n: "\<not> is_noise ''hello there''"
    by (simp add: is_noise_def py_strip_def remove_char_def is_space_def)
  have l: "has_log_channel example_config" by (simp add: example_config_def)
  show ?thesis
    using n l busy_first_heard busy_first_reply
    by (simp add: run_turn_def Let_def s)
qed

lemma busy_first_turn:
  "voice_loop_iteration example_config slow_env busy_world = first_turn_world"
proof -
  have "emit TurnDone (sleep 0 played_world) = first_turn_world"
    by (simp add: played_world_def first_turn_world_def world_eval)
  then show ?thesis
    by (simp add: voice_loop_iteration_def busy_first_record busy_first_run)
qed

lemma busy_second_record:
  "fst (record_audio_from_channel slow_env default_duration first_turn_world)
   = Some \<lparr>audio = [1/16384], speaker = Some 7, username = ''U''\<rparr>"
  by (simp add: first_turn_world_def default_duration_def slow_env_def example_env_def world_eval
        record_audio_from_channel_def extract_turn_def get_audio_data_def selected_bytes_def
        normalize_sample_def sink_cleanup_def)

lemma within_turn_no_reset: "list_all within_turn ms \<Longrightarrow> resets ms = 0"
  unfolding resets_def list_all_iff by (auto simp: filter_empty_conv)

lemma record_turn_empties_sink:
  assumes "record_audio_from_channel env duration w = (Some t, w1)"
  shows "record_connected env \<and> audio_data (sink w1) = []"
proof -
  have c: "record_connected env"
  proof (rule ccontr)
    assume "\<not> record_connected env"
    with assms show False by (simp add: record_audio_from_channel_def)
  qed
  obtain outcome seen w2 where
    ws: "wait_for_silence duration (clock w) (last_packet_time (sink w)) (emit Listen w)
           = (outcome, seen, w2)"
    by (metis prod_cases3)
  with assms c have e: "outcome = Silence \<and> extract_turn env w2 = (Some t, w1)"
    by (cases outcome) (simp_all add: record_audio_from_channel_def)
  from extract_turn_cases [of env w2] e
  have "w1 = emit SinkReset (w2\<lparr>sink := (sink_cleanup (sink w2))\<lparr>audio_data := []\<rparr>\<rparr>)"
    by auto
  then have "audio_data (sink w1) = []" by simp
  with c show ?thesis by simp
qed

text \<open>
  C8, as the code has it: in a pass of the loop in which a turn is extracted, the buffers
  of the sink are reset exactly once, at the extraction, before the recognizer is called
  (so before the next listening phase); and from then to the end of the pass the sink
  receives every packet that arrives, in order of arrival: at the end of the pass it is
  the emptied sink with the packets written to it that arrived while the turn was being
  processed. They are not dropped; the next listening phase starts with them in the buffer.
\<close>

theorem sink_reset_once_at_extraction_later_packets_kept:
  assumes "record_audio_from_channel env default_duration w = (Some t, w1)"
  shows "audio_data (sink w1) = []
       \<and> (\<exists>ms. new_events w (voice_loop_iteration h env w)
                  = [Listen, SinkReset, TurnExtracted] @ ms @ [TurnDone]
                \<and> list_all within_turn ms)
       \<and> resets (new_events w (voice_loop_iteration h env w)) = 1
       \<and> clock w1 \<le> clock (voice_loop_iteration h env w)
       \<and> deliver_packets (clock (voice_loop_iteration h env w)) (pending w1) (sink w1)
           = (pending (voice_loop_iteration h env w), sink (voice_loop_iteration h env w))"
proof -
  from record_turn_empties_sink [OF assms]
  have c: "record_connected env" and empty: "audio_data (sink w1) = []" by simp_all
  let ?w2 = "emit TurnExtracted w1"
  let ?w3 = "run_turn h env t ?w2"
  have it: "voice_loop_iteration h env w = emit TurnDone ?w3"
    using assms by (simp add: voice_loop_iteration_def)
  have t1: "trace w1 = trace w @ [Listen, SinkReset]"
    using record_audio_trace [OF assms] c by simp
  have "extends within_turn ?w2 ?w3" by (rule run_turn_extends)
  then obtain ms where ms: "trace ?w3 = trace ?w2 @ ms" "list_all within_turn ms"
    using extendsD by blast
  have "trace (voice_loop_iteration h env w)
          = trace w @ ([Listen, SinkReset, TurnExtracted] @ ms @ [TurnDone])"
    using it ms(1) t1 by simp
  then have ev: "new_events w (voice_loop_iteration h env w)
                   = [Listen, SinkReset, TurnExtracted] @ ms @ [TurnDone]"
    by (rule new_events_append)
  have "resets ([Listen, SinkReset, TurnExtracted] @ ms @ [TurnDone]) = 1 + resets ms"
    by (simp add: resets_def)
  with within_turn_no_reset [OF ms(2)] ev
  have once: "resets (new_events w (voice_loop_iteration h env w)) = 1" by simp
  from run_turn_delivers [of ?w2 h env t]
  have d: "clock w1 \<le> clock (voice_loop_iteration h env w)
       \<and> deliver_packets (clock (voice_loop_iteration h env w)) (pending w1) (sink w1)
           = (pending (voice_loop_iteration h env w), sink (voice_loop_iteration h env w))"
    unfolding it by simp
  from ev ms(2) have shape: "\<exists>ms. new_events w (voice_loop_iteration h env w)
                  = [Listen, SinkReset, TurnExtracted] @ ms @ [TurnDone]
                \<and> list_all within_turn ms" by blast
  from empty shape once d show ?thesis by (intro conjI) simp_all
qed

text \<open>
  In the session in which the language model takes three seconds, the first turn is
  extracted at 3 seconds and its pass ends at 8.2 seconds; the packet that arrives at 4
  seconds, while the language model is working, is in the sink at the end of the pass, and
  the next listening phase returns it as the next turn.
\<close>

theorem packet_during_pipeline_becomes_next_turn:
  "clock (snd (record_audio_from_channel slow_env default_duration busy_world)) = 3
   \<and> pending (snd (record_audio_from_channel slow_env default_duration busy_world))
       = [(4, Some 7, [2, 0])]
   \<and> clock (voice_loop_iteration example_config slow_env busy_world) = 41/5
   \<and> audio_data (sink (voice_loop_iteration example_config slow_env busy_world))
       = [(Some 7, [2, 0])]
   \<and> fst (record_audio_from_channel slow_env default_duration
            (voice_loop_iteration example_config slow_env busy_world))
       = Some \<lparr>audio = [1/16384], speaker = Some 7, username = ''U''\<rparr>"
  unfolding busy_first_turn busy_first_record busy_second_record
  by (simp add: extracted_world_def first_turn_world_def)

theorem sink_reset_once_at_extraction_later_packets_kept_witness:
  "record_audio_from_channel slow_env default_duration busy_world
     = (Some example_turn, extracted_world)
   \<and> audio_data (sink extracted_world) = []
   \<and> resets (new_events busy_world (voice_loop_iteration example_config slow_env busy_world)) = 1
   \<and> deliver_packets (clock (voice_loop_iteration example_config slow_env busy_world))
         (pending extracted_world) (sink extracted_world)
       = (pending (voice_loop_iteration example_config slow_env busy_world),
          sink (voice_loop_iteration example_config slow_env busy_world))"
  using sink_reset_once_at_extraction_later_packets_kept [OF busy_first_record, of example_config]
    busy_first_record
  by blast
end
